theory Spec2Isabelle
  imports Main "HOL-Library.AList"
begin

section \<open>DebugMode: the data model of \<^verbatim>\<open>theano/compile/debugmode.py\<close>\<close>

text \<open>
  Python objects are compared by reference where the source uses \<^verbatim>\<open>is\<close>, a dictionary key
  or a set member. A \<^verbatim>\<open>Variable\<close> and an \<^verbatim>\<open>Apply\<close> node therefore carry their address (\<open>vid\<close>,
  \<open>nid\<close>); two records of a well-formed graph are equal exactly when they are the same object.
  The value types, the operators and the optimizer are external: type handles are an abstract
  type \<open>'ty\<close>, runtime objects an abstract type \<open>'a\<close>, and what a \<^verbatim>\<open>Type\<close> computes is passed in
  as a record of functions.
\<close>

datatype 'a pyval = PyNone | PyObj 'a

text \<open>A client of a variable is a pair \<^verbatim>\<open>(node, i)\<close>, the node being \<^verbatim>\<open>'output'\<close> for a graph output.\<close>

datatype client_node = OutputClient | NodeClient nat

record 'ty variable =
  vid :: nat
  vtype :: 'ty
  owner :: "nat option"
  clients :: "(client_node \<times> nat) list"

text \<open>
  \<^verbatim>\<open>destroy_map\<close> and \<^verbatim>\<open>view_map\<close> are dictionaries from an output index to a list of input
  indices; an operator without the attribute reads as the empty dictionary
  (\<^verbatim>\<open>getattr(node.op, 'destroy_map', {})\<close>).
\<close>

record operator =
  op_name :: string
  destroy_map :: "(nat \<times> nat list) list"
  view_map :: "(nat \<times> nat list) list"

record 'ty apply_node =
  nid :: nat
  op :: operator
  inputs :: "'ty variable list"
  outputs :: "'ty variable list"

text \<open>The reason of a replacement: \<^verbatim>\<open>None\<close> or the name of the optimization.\<close>

type_synonym reason = "string option"

subsection \<open>Exceptions\<close>

text \<open>
  The classes of the exceptions that the module raises, with the base class each one is
  declared with (\<^verbatim>\<open>class BadOptimization(DebugModeError)\<close>, ...); the built-in ones have the
  bases of Python 2.
\<close>

datatype exc_class =
    Cls_Exception
  | Cls_StandardError
  | Cls_TypeError
  | Cls_ValueError
  | Cls_AssertionError
  | Cls_LookupError
  | Cls_KeyError
  | Cls_IndexError
  | Cls_NameError
  | Cls_UnboundLocalError
  | Cls_DebugModeError
  | Cls_BadCLinkerOutput
  | Cls_BadOptimization
  | Cls_BadDestroyMap
  | Cls_BadViewMap
  | Cls_StochasticOrder
  | Cls_FloatError
  | Cls_InvalidValueError

fun base :: "exc_class \<Rightarrow> exc_class option" where
  "base Cls_Exception = None"
| "base Cls_StandardError = Some Cls_Exception"
| "base Cls_TypeError = Some Cls_StandardError"
| "base Cls_ValueError = Some Cls_StandardError"
| "base Cls_AssertionError = Some Cls_StandardError"
| "base Cls_LookupError = Some Cls_StandardError"
| "base Cls_KeyError = Some Cls_LookupError"
| "base Cls_IndexError = Some Cls_LookupError"
| "base Cls_NameError = Some Cls_StandardError"
| "base Cls_UnboundLocalError = Some Cls_NameError"
| "base Cls_DebugModeError = Some Cls_Exception"
| "base Cls_BadCLinkerOutput = Some Cls_DebugModeError"
| "base Cls_BadOptimization = Some Cls_DebugModeError"
| "base Cls_BadDestroyMap = Some Cls_DebugModeError"
| "base Cls_BadViewMap = Some Cls_DebugModeError"
| "base Cls_StochasticOrder = Some Cls_DebugModeError"
| "base Cls_FloatError = Some Cls_DebugModeError"
| "base Cls_InvalidValueError = Some Cls_DebugModeError"

text \<open>\<open>issubclass c d\<close>: \<open>d\<close> is reached from \<open>c\<close> along the declared bases.\<close>

inductive issubclass :: "exc_class \<Rightarrow> exc_class \<Rightarrow> bool" where
  issubclass_refl: "issubclass c c"
| issubclass_base: "base c = Some b \<Longrightarrow> issubclass b d \<Longrightarrow> issubclass c d"

code_pred issubclass .

text \<open>
  The exceptions as values, with the members their constructors store. A row of the
  diagnostic of \<^verbatim>\<open>StochasticOrder\<close> is \<^verbatim>\<open>(j, str(li[j]) or '-', str(l0[j]) or '-')\<close>.
\<close>

datatype ('ty, 'a) error =
    BadCLinkerOutput "'ty variable" "'a pyval" "'a pyval"
  | BadOptimization "'ty variable" "'ty variable" "'a pyval" "'a pyval" reason string string
  | BadDestroyMap "'ty apply_node" nat "'a pyval" "'a pyval"
  | BadViewMap "'ty apply_node" nat "'a pyval" "nat list option" "nat option"
  | StochasticOrder "(nat \<times> string \<times> string) list"
  | InvalidValueError "'ty variable" "'a pyval"
  | PyException string "'ty variable option"
  | PyTypeError string "'ty apply_node"
  | PyValueError string
  | AssertionError
  | KeyError
  | IndexError
  | UnboundLocalError

fun class_of :: "('ty, 'a) error \<Rightarrow> exc_class" where
  "class_of (BadCLinkerOutput r val_py val_c) = Cls_BadCLinkerOutput"
| "class_of (BadOptimization old_r new_r old_r_val new_r_val rsn old_graph new_graph) = Cls_BadOptimization"
| "class_of (BadDestroyMap node i old_val new_val) = Cls_BadDestroyMap"
| "class_of (BadViewMap node oi out_storage in_alias out_alias) = Cls_BadViewMap"
| "class_of (StochasticOrder rows) = Cls_StochasticOrder"
| "class_of (InvalidValueError r v) = Cls_InvalidValueError"
| "class_of (PyException msg r) = Cls_Exception"
| "class_of (PyTypeError msg node) = Cls_TypeError"
| "class_of (PyValueError msg) = Cls_ValueError"
| "class_of AssertionError = Cls_AssertionError"
| "class_of KeyError = Cls_KeyError"
| "class_of IndexError = Cls_IndexError"
| "class_of UnboundLocalError = Cls_UnboundLocalError"

definition isinstance :: "('ty, 'a) error \<Rightarrow> exc_class \<Rightarrow> bool" where
  "isinstance e c = issubclass (class_of e) c"

subsection \<open>The contract of the value types\<close>

text \<open>
  What the engine asks of a \<^verbatim>\<open>Type\<close> and of the runtime objects:
  \<^verbatim>\<open>r.type.values_eq_approx(a, b)\<close>, \<^verbatim>\<open>r.type.is_valid_value(a)\<close>, the copy made by
  \<^verbatim>\<open>_lessbroken_deepcopy\<close>, the address \<^verbatim>\<open>id(a)\<close>, whether \<^verbatim>\<open>a\<close> is a \<^verbatim>\<open>numpy.ndarray\<close> that
  does not own its data, whether \<^verbatim>\<open>a\<close> has an \<^verbatim>\<open>__array_interface__\<close>, and
  \<^verbatim>\<open>numpy.may_share_memory(a, b)\<close>.
\<close>

record ('ty, 'a) contract =
  values_eq_approx :: "'ty \<Rightarrow> 'a pyval \<Rightarrow> 'a pyval \<Rightarrow> bool"
  is_valid_value :: "'ty \<Rightarrow> 'a pyval \<Rightarrow> bool"
  deepcopy :: "'a pyval \<Rightarrow> 'a pyval"
  py_id :: "'a pyval \<Rightarrow> nat"
  ndarray_without_owndata :: "'a pyval \<Rightarrow> bool"
  has_array_interface :: "'a pyval \<Rightarrow> bool"
  numpy_may_share_memory :: "'a pyval \<Rightarrow> 'a pyval \<Rightarrow> bool"

text \<open>
  Stateful code returns the exception it raised, if any, together with the state at that
  moment: what a Python function has mutated before it raises stays mutated.
\<close>

type_synonym ('ty, 'a, 's) outcome = "('ty, 'a) error option \<times> 's"

definition and_then ::
  "('ty, 'a, 's) outcome \<Rightarrow> ('s \<Rightarrow> ('ty, 'a, 's) outcome) \<Rightarrow> ('ty, 'a, 's) outcome" where
  "and_then m k = (case m of (Some e, s) \<Rightarrow> (Some e, s) | (None, s) \<Rightarrow> k s)"

section \<open>The bad-optimization check\<close>

text \<open>
  \<^verbatim>\<open>_find_bad_optimizations0(order, reasons, r_vals)\<close>. An entry of \<^verbatim>\<open>reasons[new_r]\<close> is
  \<^verbatim>\<open>(reason, r, old_graph_str, new_graph_str)\<close>. The function mutates nothing, so its model
  returns the exception raised, or \<open>None\<close> when it returns.
\<close>

type_synonym 'ty reason_entry = "reason \<times> 'ty variable \<times> string \<times> string"

fun check_reasons ::
  "('ty, 'a) contract \<Rightarrow> ('ty variable \<rightharpoonup> 'a pyval) \<Rightarrow> 'ty variable \<Rightarrow> 'ty reason_entry list
     \<Rightarrow> ('ty, 'a) error option" where
  "check_reasons c r_vals new_r [] = None"
| "check_reasons c r_vals new_r ((rsn, r, old_graph_str, new_graph_str) # rest) =
     (case r_vals new_r of
        None \<Rightarrow> Some KeyError
      | Some new_r_val \<Rightarrow>
          (case r_vals r of
             None \<Rightarrow> Some KeyError
           | Some r_val \<Rightarrow>
               if vtype r \<noteq> vtype new_r then Some AssertionError
               else if \<not> values_eq_approx c (vtype r) r_val new_r_val
               then Some (BadOptimization r new_r r_val new_r_val rsn old_graph_str new_graph_str)
               else check_reasons c r_vals new_r rest))"

fun check_outputs ::
  "('ty, 'a) contract \<Rightarrow> ('ty variable \<rightharpoonup> 'ty reason_entry list) \<Rightarrow> ('ty variable \<rightharpoonup> 'a pyval)
     \<Rightarrow> 'ty variable list \<Rightarrow> ('ty, 'a) error option" where
  "check_outputs c reasons r_vals [] = None"
| "check_outputs c reasons r_vals (new_r # rest) =
     (case reasons new_r of
        None \<Rightarrow> Some KeyError
      | Some chain \<Rightarrow>
          (case check_reasons c r_vals new_r chain of
             Some e \<Rightarrow> Some e
           | None \<Rightarrow> check_outputs c reasons r_vals rest))"

fun find_bad_optimizations0 ::
  "('ty, 'a) contract \<Rightarrow> 'ty apply_node list \<Rightarrow> ('ty variable \<rightharpoonup> 'ty reason_entry list)
     \<Rightarrow> ('ty variable \<rightharpoonup> 'a pyval) \<Rightarrow> ('ty, 'a) error option" where
  "find_bad_optimizations0 c [] reasons r_vals = None"
| "find_bad_optimizations0 c (node # order) reasons r_vals =
     (case check_outputs c reasons r_vals (outputs node) of
        Some e \<Rightarrow> Some e
      | None \<Rightarrow> find_bad_optimizations0 c order reasons r_vals)"

text \<open>\<^verbatim>\<open>_find_bad_optimizations = _find_bad_optimizations0\<close>\<close>

definition find_bad_optimizations ::
  "('ty, 'a) contract \<Rightarrow> 'ty apply_node list \<Rightarrow> ('ty variable \<rightharpoonup> 'ty reason_entry list)
     \<Rightarrow> ('ty variable \<rightharpoonup> 'a pyval) \<Rightarrow> ('ty, 'a) error option" where
  "find_bad_optimizations = find_bad_optimizations0"

section \<open>The state of one evaluation\<close>

text \<open>
  \<^verbatim>\<open>storage_map\<close> maps a variable to its one-slot cell; the model keeps the slot's content,
  and keeps the dictionary as an association list, whose order stands for the order in which
  Python iterates over the dictionary. \<^verbatim>\<open>r_vals\<close> holds the value of each variable,
  \<^verbatim>\<open>dr_vals\<close> the value of a destroyed variable with the node that destroyed it.
\<close>

record ('ty, 'a) fstate =
  storage_map :: "('ty variable \<times> 'a pyval) list"
  r_vals :: "'ty variable \<rightharpoonup> 'a pyval"
  dr_vals :: "'ty variable \<rightharpoonup> ('a pyval \<times> 'ty apply_node)"

section \<open>The destroy-map check\<close>

definition destroyed_idx_list :: "'ty apply_node \<Rightarrow> nat list" where
  "destroyed_idx_list node = concat (map snd (destroy_map (op node)))"

text \<open>\<^verbatim>\<open>[node.inputs[i] for i in destroyed_idx_list]\<close>, which raises when an index is out of range.\<close>

definition destroyed_res_list :: "'ty apply_node \<Rightarrow> 'ty variable list option" where
  "destroyed_res_list node =
     (if \<forall>i \<in> set (destroyed_idx_list node). i < length (inputs node)
      then Some (map (\<lambda>i. inputs node ! i) (destroyed_idx_list node))
      else None)"

text \<open>The loop \<^verbatim>\<open>for r_idx, r in enumerate(node.inputs)\<close> of \<^verbatim>\<open>_check_inputs\<close>.\<close>

fun check_inputs_loop ::
  "('ty, 'a) contract \<Rightarrow> 'ty apply_node \<Rightarrow> 'ty variable list \<Rightarrow> 'ty apply_node set \<Rightarrow> bool
     \<Rightarrow> (nat \<times> 'ty variable) list \<Rightarrow> ('ty, 'a) fstate \<Rightarrow> ('ty, 'a, ('ty, 'a) fstate) outcome" where
  "check_inputs_loop c node destroyed active_nodes clobber_dr_vals [] s = (None, s)"
| "check_inputs_loop c node destroyed active_nodes clobber_dr_vals ((r_idx, r) # rest) s =
     (case r_vals s r of
        None \<Rightarrow> (Some KeyError, s)
      | Some r_val \<Rightarrow>
          (case map_of (storage_map s) r of
             None \<Rightarrow> (Some KeyError, s)
           | Some cell \<Rightarrow>
               if \<not> values_eq_approx c (vtype r) r_val cell then
                 if r \<in> set destroyed then
                   if node \<in> active_nodes then
                     if (case dr_vals s r of None \<Rightarrow> False | Some (v, n) \<Rightarrow> n \<noteq> node)
                     then (Some (PyException ''failure in topological ordering'' None), s)
                     else check_inputs_loop c node destroyed active_nodes clobber_dr_vals rest
                            (s\<lparr>dr_vals := (if clobber_dr_vals then (dr_vals s)(r \<mapsto> (cell, node))
                                           else dr_vals s),
                               storage_map := AList.update r PyNone (storage_map s)\<rparr>)
                   else check_inputs_loop c node destroyed active_nodes clobber_dr_vals rest s
                 else (Some (BadDestroyMap node r_idx r_val cell), s)
               else check_inputs_loop c node destroyed active_nodes clobber_dr_vals rest s))"

definition check_inputs ::
  "('ty, 'a) contract \<Rightarrow> 'ty apply_node \<Rightarrow> 'ty apply_node set \<Rightarrow> bool \<Rightarrow> ('ty, 'a) fstate
     \<Rightarrow> ('ty, 'a, ('ty, 'a) fstate) outcome" where
  "check_inputs c node active_nodes clobber_dr_vals s =
     (case destroyed_res_list node of
        None \<Rightarrow> (Some IndexError, s)
      | Some destroyed \<Rightarrow>
          check_inputs_loop c node destroyed active_nodes clobber_dr_vals
            (enumerate 0 (inputs node)) s)"

section \<open>The view-map check\<close>

definition may_share_memory :: "('ty, 'a) contract \<Rightarrow> 'a pyval \<Rightarrow> 'a pyval \<Rightarrow> bool" where
  "may_share_memory c a b =
     (has_array_interface c a \<and> has_array_interface c b \<and> numpy_may_share_memory c a b)"

definition is_function_output :: "'ty variable \<Rightarrow> bool" where
  "is_function_output v = (clients v = [(OutputClient, 1)])"

definition is_used_in_graph :: "'ty variable \<Rightarrow> bool" where
  "is_used_in_graph v = (\<not> (is_function_output v \<or> clients v = []))"

text \<open>
  The loop over the inputs that fills \<^verbatim>\<open>good_alias\<close> and \<^verbatim>\<open>bad_alias\<close>, two dictionaries
  from \<^verbatim>\<open>id(inode)\<close> to the input's index.
\<close>

fun alias_loop ::
  "('ty, 'a) contract \<Rightarrow> 'ty apply_node \<Rightarrow> nat \<Rightarrow> 'a pyval \<Rightarrow> (nat \<times> 'ty variable \<times> 'a pyval) list
     \<Rightarrow> (nat \<times> nat) list \<times> (nat \<times> nat) list \<Rightarrow> (nat \<times> nat) list \<times> (nat \<times> nat) list" where
  "alias_loop c node oi outstorage [] (good_alias, bad_alias) = (good_alias, bad_alias)"
| "alias_loop c node oi outstorage ((ii, inode, instorage) # rest) (good_alias, bad_alias) =
     (if may_share_memory c outstorage instorage then
        (if Some [ii] = map_of (view_map (op node)) oi \<or> Some [ii] = map_of (destroy_map (op node)) oi
         then alias_loop c node oi outstorage rest
                (AList.update (vid inode) ii good_alias, AList.delete (vid inode) bad_alias)
         else alias_loop c node oi outstorage rest
                (good_alias, AList.update (vid inode) ii bad_alias))
      else alias_loop c node oi outstorage rest (good_alias, bad_alias))"

text \<open>The loop over the other outputs of the node.\<close>

fun other_outputs_loop ::
  "('ty, 'a) contract \<Rightarrow> 'ty apply_node \<Rightarrow> ('ty variable \<times> 'a pyval) list \<Rightarrow> nat \<Rightarrow> 'a pyval
     \<Rightarrow> (nat \<times> 'ty variable) list \<Rightarrow> ('ty, 'a) error option" where
  "other_outputs_loop c node sm oi outstorage [] = None"
| "other_outputs_loop c node sm oi outstorage ((other_oi, other_onode) # rest) =
     (if other_oi = oi then other_outputs_loop c node sm oi outstorage rest
      else (case map_of sm other_onode of
              None \<Rightarrow> Some KeyError
            | Some other_storage \<Rightarrow>
                if is_used_in_graph other_onode \<and> may_share_memory c outstorage other_storage
                then Some (BadViewMap node oi outstorage None (Some other_oi))
                else other_outputs_loop c node sm oi outstorage rest))"

text \<open>The body of \<^verbatim>\<open>for oi, onode in enumerate(node.outputs)\<close>.\<close>

definition check_viewmap_output ::
  "('ty, 'a) contract \<Rightarrow> 'ty apply_node \<Rightarrow> ('ty variable \<times> 'a pyval) list \<Rightarrow> nat \<Rightarrow> 'ty variable
     \<Rightarrow> ('ty, 'a) error option" where
  "check_viewmap_output c node sm oi onode =
     (case map_of sm onode of
        None \<Rightarrow> Some KeyError
      | Some outstorage \<Rightarrow>
          (case those (map (map_of sm) (inputs node)) of
             None \<Rightarrow> Some KeyError
           | Some instorage \<Rightarrow>
               (let danger_flag = (py_id c outstorage \<in> set (map (py_id c) instorage)
                                   \<or> ndarray_without_owndata c outstorage);
                    (good_alias, bad_alias) =
                      (if danger_flag
                       then (case alias_loop c node oi outstorage
                                    (zip [0..<length (inputs node)] (zip (inputs node) instorage))
                                    ([], []) of
                               (good, bad) \<Rightarrow> (good, fold AList.delete (map fst good) bad))
                       else ([], []))
                in if danger_flag \<and> bad_alias \<noteq> []
                   then Some (BadViewMap node oi outstorage (Some (map snd bad_alias)) None)
                   else if good_alias = [] \<and> is_used_in_graph onode
                   then other_outputs_loop c node sm oi outstorage (enumerate 0 (outputs node))
                   else None)))"

fun check_viewmap_loop ::
  "('ty, 'a) contract \<Rightarrow> 'ty apply_node \<Rightarrow> ('ty variable \<times> 'a pyval) list
     \<Rightarrow> (nat \<times> 'ty variable) list \<Rightarrow> ('ty, 'a) error option" where
  "check_viewmap_loop c node sm [] = None"
| "check_viewmap_loop c node sm ((oi, onode) # rest) =
     (case check_viewmap_output c node sm oi onode of
        Some e \<Rightarrow> Some e
      | None \<Rightarrow> check_viewmap_loop c node sm rest)"

definition check_viewmap ::
  "('ty, 'a) contract \<Rightarrow> 'ty apply_node \<Rightarrow> ('ty variable \<times> 'a pyval) list \<Rightarrow> ('ty, 'a) error option" where
  "check_viewmap c node sm = check_viewmap_loop c node sm (enumerate 0 (outputs node))"

section \<open>The function that evaluates the graph\<close>

text \<open>
  The closure \<^verbatim>\<open>f\<close> built by \<^verbatim>\<open>_Linker.make_all\<close>. A thunk reads and writes the storage cells
  of its node; it is an external function of the storage map (\<^verbatim>\<open>None\<close> when the backend has
  no thunk for the node).
\<close>

type_synonym ('ty, 'a) thunk = "('ty variable \<times> 'a pyval) list \<Rightarrow> ('ty variable \<times> 'a pyval) list"

text \<open>\<^verbatim>\<open>for x in no_recycling: x[0] = None\<close>\<close>

definition clear_cells ::
  "'ty variable list \<Rightarrow> ('ty variable \<times> 'a pyval) list \<Rightarrow> ('ty variable \<times> 'a pyval) list" where
  "clear_cells rs sm = fold (\<lambda>r. AList.map_entry r (\<lambda>v. PyNone)) rs sm"

text \<open>
  The transfer of the initial values from the storage map to \<^verbatim>\<open>r_vals\<close>:
  \<^verbatim>\<open>for r in storage_map: if r.owner is None: ...\<close>
\<close>

fun f_init_loop ::
  "('ty, 'a) contract \<Rightarrow> 'ty variable list \<Rightarrow> ('ty, 'a) fstate \<Rightarrow> ('ty, 'a, ('ty, 'a) fstate) outcome" where
  "f_init_loop c [] s = (None, s)"
| "f_init_loop c (r # rest) s =
     (if owner r = None then
        (case map_of (storage_map s) r of
           None \<Rightarrow> (Some KeyError, s)
         | Some cell \<Rightarrow>
             if cell = PyNone then (Some (PyException ''Missing input'' (Some r)), s)
             else if \<not> is_valid_value c (vtype r) cell then (Some (InvalidValueError r cell), s)
             else f_init_loop c rest
                    (s\<lparr>r_vals := (r_vals s)(r \<mapsto> cell),
                       storage_map := AList.update r PyNone (storage_map s)\<rparr>))
      else f_init_loop c rest s)"

text \<open>\<^verbatim>\<open>for r, s in storage_map.iteritems(): assert s[0] is None\<close>\<close>

definition assert_storage_empty :: "('ty, 'a) fstate \<Rightarrow> ('ty, 'a, ('ty, 'a) fstate) outcome" where
  "assert_storage_empty s =
     (if \<forall>cell \<in> set (map snd (storage_map s)). cell = PyNone then (None, s)
      else (Some AssertionError, s))"

definition f_init ::
  "('ty, 'a) contract \<Rightarrow> 'ty variable list \<Rightarrow> ('ty variable \<times> 'a pyval) list
     \<Rightarrow> ('ty, 'a, ('ty, 'a) fstate) outcome" where
  "f_init c no_recycling sm =
     and_then
       (f_init_loop c (map fst sm)
          \<lparr>storage_map = clear_cells no_recycling sm, r_vals = Map.empty, dr_vals = Map.empty\<rparr>)
       assert_storage_empty"

text \<open>Putting a copy of each input into the storage map, before the reference thunk.\<close>

fun put_inputs ::
  "('ty, 'a) contract \<Rightarrow> 'ty variable list \<Rightarrow> ('ty, 'a) fstate \<Rightarrow> ('ty, 'a, ('ty, 'a) fstate) outcome" where
  "put_inputs c [] s = (None, s)"
| "put_inputs c (r # rest) s =
     (case r_vals s r of
        None \<Rightarrow> (Some AssertionError, s)
      | Some r_val \<Rightarrow>
          (case map_of (storage_map s) r of
             None \<Rightarrow> (Some KeyError, s)
           | Some old_cell \<Rightarrow>
               (let s' = s\<lparr>storage_map := AList.update r (deepcopy c r_val) (storage_map s)\<rparr>
                in if \<not> is_valid_value c (vtype r) (deepcopy c r_val)
                   then (Some (InvalidValueError r (deepcopy c r_val)), s')
                   else put_inputs c rest s')))"

text \<open>The outputs after the reference thunk: each one is validated and moved into \<^verbatim>\<open>r_vals\<close>.\<close>

fun py_outputs ::
  "('ty, 'a) contract \<Rightarrow> 'ty variable list \<Rightarrow> ('ty, 'a) fstate \<Rightarrow> ('ty, 'a, ('ty, 'a) fstate) outcome" where
  "py_outputs c [] s = (None, s)"
| "py_outputs c (r # rest) s =
     (case map_of (storage_map s) r of
        None \<Rightarrow> (Some KeyError, s)
      | Some cell \<Rightarrow>
          if \<not> is_valid_value c (vtype r) cell then (Some (InvalidValueError r cell), s)
          else if r_vals s r \<noteq> None then (Some AssertionError, s)
          else py_outputs c rest
                 (s\<lparr>r_vals := (r_vals s)(r \<mapsto> cell),
                    storage_map := AList.update r PyNone (storage_map s)\<rparr>))"

text \<open>Refilling the inputs before the compiled thunk.\<close>

fun refill_inputs ::
  "('ty, 'a) contract \<Rightarrow> 'ty variable list \<Rightarrow> ('ty, 'a) fstate \<Rightarrow> ('ty, 'a, ('ty, 'a) fstate) outcome" where
  "refill_inputs c [] s = (None, s)"
| "refill_inputs c (r # rest) s =
     (case r_vals s r of
        None \<Rightarrow> (Some KeyError, s)
      | Some r_val \<Rightarrow>
          (case map_of (storage_map s) r of
             None \<Rightarrow> (Some KeyError, s)
           | Some old_cell \<Rightarrow>
               refill_inputs c rest
                 (s\<lparr>storage_map := AList.update r (deepcopy c r_val) (storage_map s)\<rparr>)))"

text \<open>
  The outputs after the compiled thunk: each one is validated, then compared with the value
  that the reference thunk left in \<^verbatim>\<open>r_vals\<close>, or moved into \<^verbatim>\<open>r_vals\<close> when there is none.
\<close>

fun c_outputs ::
  "('ty, 'a) contract \<Rightarrow> 'ty variable list \<Rightarrow> ('ty, 'a) fstate \<Rightarrow> ('ty, 'a, ('ty, 'a) fstate) outcome" where
  "c_outputs c [] s = (None, s)"
| "c_outputs c (r # rest) s =
     (case map_of (storage_map s) r of
        None \<Rightarrow> (Some KeyError, s)
      | Some cell \<Rightarrow>
          if \<not> is_valid_value c (vtype r) cell then (Some (InvalidValueError r cell), s)
          else (case r_vals s r of
                  Some val_py \<Rightarrow>
                    if \<not> values_eq_approx c (vtype r) val_py cell
                    then (Some (BadCLinkerOutput r val_py cell), s)
                    else c_outputs c rest (s\<lparr>storage_map := AList.update r PyNone (storage_map s)\<rparr>)
                | None \<Rightarrow>
                    c_outputs c rest
                      (s\<lparr>r_vals := (r_vals s)(r \<mapsto> cell),
                         storage_map := AList.update r PyNone (storage_map s)\<rparr>)))"

text \<open>\<^verbatim>\<open>for r in node.inputs: storage_map[r][0] = None\<close>\<close>

fun clear_inputs ::
  "'ty variable list \<Rightarrow> ('ty, 'a) fstate \<Rightarrow> ('ty, 'a, ('ty, 'a) fstate) outcome" where
  "clear_inputs [] s = (None, s)"
| "clear_inputs (r # rest) s =
     (case map_of (storage_map s) r of
        None \<Rightarrow> (Some KeyError, s)
      | Some old_cell \<Rightarrow> clear_inputs rest (s\<lparr>storage_map := AList.update r PyNone (storage_map s)\<rparr>))"

definition run_thunk :: "('ty, 'a) thunk \<Rightarrow> ('ty, 'a) fstate \<Rightarrow> ('ty, 'a, ('ty, 'a) fstate) outcome" where
  "run_thunk thunk s = (None, s\<lparr>storage_map := thunk (storage_map s)\<rparr>)"

definition run_check_viewmap ::
  "('ty, 'a) contract \<Rightarrow> 'ty apply_node \<Rightarrow> ('ty, 'a) fstate \<Rightarrow> ('ty, 'a, ('ty, 'a) fstate) outcome" where
  "run_check_viewmap c node s = (check_viewmap c node (storage_map s), s)"

text \<open>The part of the loop body under \<^verbatim>\<open>if thunk_py:\<close>.\<close>

definition py_block ::
  "('ty, 'a) contract \<Rightarrow> 'ty apply_node set \<Rightarrow> 'ty apply_node \<Rightarrow> ('ty, 'a) thunk option
     \<Rightarrow> ('ty, 'a) fstate \<Rightarrow> ('ty, 'a, ('ty, 'a) fstate) outcome" where
  "py_block c active_order_set node thunk_py s =
     (case thunk_py of
        None \<Rightarrow> (None, s)
      | Some thunk \<Rightarrow>
          and_then (and_then (and_then (run_thunk thunk s)
            (check_inputs c node active_order_set True))
            (run_check_viewmap c node))
            (py_outputs c (outputs node)))"

text \<open>The part of the loop body under \<^verbatim>\<open>if thunk_c:\<close>.\<close>

definition c_block ::
  "('ty, 'a) contract \<Rightarrow> 'ty apply_node set \<Rightarrow> 'ty apply_node \<Rightarrow> ('ty, 'a) thunk option
     \<Rightarrow> ('ty, 'a) fstate \<Rightarrow> ('ty, 'a, ('ty, 'a) fstate) outcome" where
  "c_block c active_order_set node thunk_c s =
     (case thunk_c of
        None \<Rightarrow> (None, s)
      | Some thunk \<Rightarrow>
          and_then (and_then (and_then (and_then (refill_inputs c (inputs node) s)
            (run_thunk thunk))
            (check_inputs c node active_order_set False))
            (run_check_viewmap c node))
            (c_outputs c (outputs node)))"

text \<open>The body of \<^verbatim>\<open>for i, (thunk_py, thunk_c, node) in enumerate(zip(thunks_py, thunks_c, order))\<close>.\<close>

definition eval_node ::
  "('ty, 'a) contract \<Rightarrow> 'ty apply_node set
     \<Rightarrow> ('ty, 'a) thunk option \<times> ('ty, 'a) thunk option \<times> 'ty apply_node
     \<Rightarrow> ('ty, 'a) fstate \<Rightarrow> ('ty, 'a, ('ty, 'a) fstate) outcome" where
  "eval_node c active_order_set job s =
     (case job of (thunk_py, thunk_c, node) \<Rightarrow>
        and_then (and_then (and_then (put_inputs c (inputs node) s)
          (py_block c active_order_set node thunk_py))
          (c_block c active_order_set node thunk_c))
          (clear_inputs (inputs node)))"

fun eval_order ::
  "('ty, 'a) contract \<Rightarrow> 'ty apply_node set
     \<Rightarrow> (('ty, 'a) thunk option \<times> ('ty, 'a) thunk option \<times> 'ty apply_node) list
     \<Rightarrow> ('ty, 'a) fstate \<Rightarrow> ('ty, 'a, ('ty, 'a) fstate) outcome" where
  "eval_order c active_order_set [] s = (None, s)"
| "eval_order c active_order_set (job # jobs) s =
     and_then (eval_node c active_order_set job s) (eval_order c active_order_set jobs)"

definition run_find_bad_optimizations ::
  "('ty, 'a) contract \<Rightarrow> 'ty apply_node list \<Rightarrow> ('ty variable \<rightharpoonup> 'ty reason_entry list)
     \<Rightarrow> ('ty, 'a) fstate \<Rightarrow> ('ty, 'a, ('ty, 'a) fstate) outcome" where
  "run_find_bad_optimizations c order reasons s =
     (find_bad_optimizations c order reasons (r_vals s), s)"

text \<open>
  \<^verbatim>\<open>f\<close> from its first line to the call of \<^verbatim>\<open>_find_bad_optimizations\<close> and the assertion after
  it that the storage map is empty. The transfer of the results to the output and input cells,
  which follows, is not part of the model. \<open>jobs\<close> is \<^verbatim>\<open>zip(thunks_py, thunks_c, order)\<close>.
\<close>

definition f ::
  "('ty, 'a) contract \<Rightarrow> 'ty apply_node set \<Rightarrow> ('ty variable \<rightharpoonup> 'ty reason_entry list)
     \<Rightarrow> 'ty variable list
     \<Rightarrow> (('ty, 'a) thunk option \<times> ('ty, 'a) thunk option \<times> 'ty apply_node) list
     \<Rightarrow> ('ty variable \<times> 'a pyval) list \<Rightarrow> ('ty, 'a, ('ty, 'a) fstate) outcome" where
  "f c active_order_set reasons no_recycling jobs sm =
     and_then (and_then (and_then (f_init c no_recycling sm)
       (eval_order c active_order_set jobs))
       (run_find_bad_optimizations c (map (\<lambda>job. snd (snd job)) jobs) reasons))
       assert_storage_empty"

section \<open>Events and the equivalence tracker\<close>

subsection \<open>\<^verbatim>\<open>_EnvEvent\<close>\<close>

datatype event_kind = Import | Change | Prune

text \<open>The node of an event is \<^verbatim>\<open>'output'\<close> or an \<^verbatim>\<open>Apply\<close> instance, its operator likewise.\<close>

datatype 'ty event_node = OutputNode | ApplyNode "'ty apply_node"

datatype event_op = OutputOp | OpOf operator

record 'ty event =
  ev_kind :: event_kind
  ev_node :: "'ty event_node"
  ev_op :: event_op
  ev_idx :: "nat option"
  ev_reason :: "string option"

text \<open>\<^verbatim>\<open>_EnvEvent.__init__(self, kind, node, idx=None, reason=None)\<close>\<close>

definition EnvEvent ::
  "event_kind \<Rightarrow> 'ty event_node \<Rightarrow> nat option \<Rightarrow> string option \<Rightarrow> 'ty event" where
  "EnvEvent k node i rsn =
     \<lparr>ev_kind = k, ev_node = node,
      ev_op = (case node of OutputNode \<Rightarrow> OutputOp | ApplyNode n \<Rightarrow> OpOf (op n)),
      ev_idx = i, ev_reason = rsn\<rparr>"

text \<open>
  \<^verbatim>\<open>_EnvEvent.__eq__\<close>: both sides are events, and the attributes \<^verbatim>\<open>kind\<close>, \<^verbatim>\<open>op\<close>, \<^verbatim>\<open>idx\<close>
  and \<^verbatim>\<open>reason\<close> are compared in this order.
\<close>

definition EnvEvent_eq :: "'ty event \<Rightarrow> 'ty event \<Rightarrow> bool" where
  "EnvEvent_eq self other =
     (ev_kind self = ev_kind other \<and> ev_op self = ev_op other
      \<and> ev_idx self = ev_idx other \<and> ev_reason self = ev_reason other)"

definition EnvEvent_ne :: "'ty event \<Rightarrow> 'ty event \<Rightarrow> bool" where
  "EnvEvent_ne self other = (\<not> EnvEvent_eq self other)"

subsection \<open>\<^verbatim>\<open>_VariableEquivalenceTracker\<close>\<close>

text \<open>
  \<^verbatim>\<open>equiv\<close> maps a variable to a set object, and several variables share one set object, which
  \<^verbatim>\<open>on_change_input\<close> updates in place. The model keeps the set objects in a store, \<open>sets\<close>,
  and \<open>equiv_dict\<close> maps a variable to the position of its set object there; a new set object is
  appended to the store.
\<close>

record 'ty tracker =
  equiv_dict :: "'ty variable \<rightharpoonup> nat"
  sets :: "'ty variable set list"
  active_nodes :: "'ty apply_node set"
  inactive_nodes :: "'ty apply_node set"
  all_variables_ever :: "'ty variable list"
  reasons :: "'ty variable \<rightharpoonup> 'ty reason_entry list"
  replaced_by :: "'ty variable \<rightharpoonup> (reason \<times> 'ty variable) list"
  event_list :: "'ty event list"

definition on_attach :: "'ty tracker" where
  "on_attach =
     \<lparr>equiv_dict = Map.empty, sets = [], active_nodes = {}, inactive_nodes = {},
      all_variables_ever = [], reasons = Map.empty, replaced_by = Map.empty, event_list = []\<rparr>"

text \<open>\<^verbatim>\<open>d.setdefault(k, v)\<close>, for its effect on the dictionary.\<close>

definition setdefault :: "('k \<rightharpoonup> 'v) \<Rightarrow> 'k \<Rightarrow> 'v \<Rightarrow> ('k \<rightharpoonup> 'v)" where
  "setdefault d k v = (case d k of None \<Rightarrow> d(k \<mapsto> v) | Some old \<Rightarrow> d)"

definition on_prune :: "'ty tracker \<Rightarrow> 'ty apply_node \<Rightarrow> ('ty, 'a, 'ty tracker) outcome" where
  "on_prune t node =
     (let t1 = t\<lparr>event_list := event_list t @ [EnvEvent Prune (ApplyNode node) None None]\<rparr>
      in if node \<notin> active_nodes t1 then (Some AssertionError, t1)
         else if node \<in> inactive_nodes t1 then (Some AssertionError, t1)
         else (None, t1\<lparr>active_nodes := active_nodes t1 - {node},
                        inactive_nodes := insert node (inactive_nodes t1)\<rparr>))"

text \<open>The two loops over the outputs in \<^verbatim>\<open>on_import\<close>, and the loop over the inputs.\<close>

fun import_known_outputs ::
  "'ty variable list \<Rightarrow> 'ty tracker \<Rightarrow> ('ty, 'a, 'ty tracker) outcome" where
  "import_known_outputs [] t = (None, t)"
| "import_known_outputs (r # rest) t =
     (if equiv_dict t r = None then (Some AssertionError, t) else import_known_outputs rest t)"

fun import_new_outputs ::
  "'ty variable list \<Rightarrow> 'ty tracker \<Rightarrow> ('ty, 'a, 'ty tracker) outcome" where
  "import_new_outputs [] t = (None, t)"
| "import_new_outputs (r # rest) t =
     (if equiv_dict t r \<noteq> None then (Some AssertionError, t)
      else import_new_outputs rest
             (t\<lparr>equiv_dict := (equiv_dict t)(r \<mapsto> length (sets t)),
                sets := sets t @ [{r}],
                all_variables_ever := all_variables_ever t @ [r],
                reasons := setdefault (reasons t) r [],
                replaced_by := setdefault (replaced_by t) r []\<rparr>))"

fun import_inputs :: "'ty variable list \<Rightarrow> 'ty tracker \<Rightarrow> 'ty tracker" where
  "import_inputs [] t = t"
| "import_inputs (r # rest) t =
     import_inputs rest
       (t\<lparr>reasons := setdefault (reasons t) r [],
          replaced_by := setdefault (replaced_by t) r []\<rparr>)"

definition on_import :: "'ty tracker \<Rightarrow> 'ty apply_node \<Rightarrow> ('ty, 'a, 'ty tracker) outcome" where
  "on_import t node =
     (let t1 = t\<lparr>event_list := event_list t @ [EnvEvent Import (ApplyNode node) None None]\<rparr>
      in if node \<in> active_nodes t1 then (Some AssertionError, t1)
         else (let t2 = t1\<lparr>active_nodes := insert node (active_nodes t1)\<rparr>
               in if node \<in> inactive_nodes t2
                  then import_known_outputs (outputs node)
                         (t2\<lparr>inactive_nodes := inactive_nodes t2 - {node}\<rparr>)
                  else and_then (import_new_outputs (outputs node) t2)
                         (\<lambda>t3. (None, import_inputs (inputs node) t3))))"

text \<open>\<^verbatim>\<open>str(reason)\<close>\<close>

definition str_reason :: "reason \<Rightarrow> string" where
  "str_reason rsn = (case rsn of None \<Rightarrow> ''None'' | Some name \<Rightarrow> name)"

text \<open>
  The first half of \<^verbatim>\<open>on_change_input\<close>: the event, the two \<^verbatim>\<open>setdefault\<close> calls and the
  reason chain. \<open>debugprint v\<close> is the text that
  \<^verbatim>\<open>_debugprint(v, prefix='  ', depth=6, file=StringIO()).getvalue()\<close> gives on the graph as it is
  when the event arrives.
\<close>

definition record_reason ::
  "('ty variable \<Rightarrow> string) \<Rightarrow> 'ty tracker \<Rightarrow> 'ty event_node \<Rightarrow> nat \<Rightarrow> 'ty variable \<Rightarrow> 'ty variable
     \<Rightarrow> reason \<Rightarrow> ('ty, 'a, 'ty tracker) outcome" where
  "record_reason debugprint t node i r new_r rsn =
     (let t1 = t\<lparr>event_list := event_list t
                   @ [EnvEvent Change node (Some i) (Some (str_reason rsn))]\<rparr>;
          t2 = t1\<lparr>reasons := setdefault (reasons t1) new_r [],
                  replaced_by := setdefault (replaced_by t1) new_r []\<rparr>
      in case reasons t2 new_r of
           None \<Rightarrow> (Some KeyError, t2)
         | Some chain \<Rightarrow>
             (let append_reason = (\<not> (\<exists>tup \<in> set chain. fst tup = rsn \<and> fst (snd tup) = r))
              in if append_reason then
                   (let t3 = t2\<lparr>reasons := (reasons t2)
                                   (new_r \<mapsto> chain @ [(rsn, r, debugprint r, debugprint new_r)])\<rparr>
                    in case replaced_by t3 r of
                         None \<Rightarrow> (Some KeyError, t3)
                       | Some repl \<Rightarrow>
                           (None, t3\<lparr>replaced_by := (replaced_by t3)(r \<mapsto> repl @ [(rsn, new_r)])\<rparr>))
                 else (None, t2)))"

text \<open>
  \<^verbatim>\<open>if r in self.equiv: r_set = self.equiv[r]\<close>, and otherwise a new singleton set for \<open>r\<close>,
  which is then appended to \<^verbatim>\<open>all_variables_ever\<close>. The result is the position of the set.
\<close>

definition class_of_or_new :: "'ty tracker \<Rightarrow> 'ty variable \<Rightarrow> nat \<times> 'ty tracker" where
  "class_of_or_new t r =
     (case equiv_dict t r of
        Some r_set \<Rightarrow> (r_set, t)
      | None \<Rightarrow>
          (length (sets t),
           t\<lparr>equiv_dict := (equiv_dict t)(r \<mapsto> length (sets t)),
             sets := sets t @ [{r}],
             all_variables_ever := all_variables_ever t @ [r]\<rparr>))"

text \<open>
  The second half of \<^verbatim>\<open>on_change_input\<close>: the two sets are looked up or made, \<^verbatim>\<open>r_set\<close> is
  updated in place with the members of \<^verbatim>\<open>new_r_set\<close>, and every member of \<^verbatim>\<open>new_r_set\<close> is made
  to refer to \<^verbatim>\<open>r_set\<close>.
\<close>

definition merge_classes ::
  "'ty tracker \<Rightarrow> 'ty variable \<Rightarrow> 'ty variable \<Rightarrow> ('ty, 'a, 'ty tracker) outcome" where
  "merge_classes t r new_r =
     (case class_of_or_new t r of (r_set, t1) \<Rightarrow>
      case class_of_or_new t1 new_r of (new_r_set, t2) \<Rightarrow>
        if new_r \<notin> sets t2 ! new_r_set then (Some AssertionError, t2)
        else if r \<notin> sets t2 ! r_set then (Some AssertionError, t2)
        else (let members = sets t2 ! new_r_set;
                  t3 = t2\<lparr>sets := (sets t2)[r_set := sets t2 ! r_set \<union> members]\<rparr>;
                  t4 = t3\<lparr>equiv_dict := (\<lambda>v. if v \<in> members then Some r_set else equiv_dict t3 v)\<rparr>
              in if equiv_dict t4 r \<noteq> Some r_set then (Some AssertionError, t4)
                 else if equiv_dict t4 new_r \<noteq> Some r_set then (Some AssertionError, t4)
                 else (None, t4)))"

definition on_change_input ::
  "('ty variable \<Rightarrow> string) \<Rightarrow> 'ty tracker \<Rightarrow> 'ty event_node \<Rightarrow> nat \<Rightarrow> 'ty variable \<Rightarrow> 'ty variable
     \<Rightarrow> reason \<Rightarrow> ('ty, 'a, 'ty tracker) outcome" where
  "on_change_input debugprint t node i r new_r rsn =
     and_then (record_reason debugprint t node i r new_r rsn) (\<lambda>t'. merge_classes t' r new_r)"

text \<open>The members of the class that a variable refers to (none for a variable without one).\<close>

definition members_of :: "'ty tracker \<Rightarrow> 'ty variable \<Rightarrow> 'ty variable set" where
  "members_of t v = (case equiv_dict t v of None \<Rightarrow> {} | Some k \<Rightarrow> sets t ! k)"

section \<open>The optimizer harness and the mode\<close>

text \<open>
  An \<^verbatim>\<open>Env\<close> is an object of its own for each clone of the source graph: \<open>env_id\<close> is its
  address. Its nodes stand in the order in which \<^verbatim>\<open>for node in env.nodes\<close> visits them.
\<close>

record 'ty env =
  env_id :: nat
  env_nodes :: "'ty apply_node list"
  equivalence_tracker :: "'ty tracker"

text \<open>
  \<^verbatim>\<open>_optcheck_env\<close>, from the \<^verbatim>\<open>Env\<close> that the external constructor has built on a fresh clone
  of the graph, with the tracker installed.
\<close>

definition optcheck_env :: "'ty env \<Rightarrow> bool \<Rightarrow> ('ty, 'a) error + 'ty env" where
  "optcheck_env new_env accept_inplace =
     (if \<not> accept_inplace then
        (case find (\<lambda>node. destroy_map (op node) \<noteq> []) (env_nodes new_env) of
           Some node \<Rightarrow> Inl (PyTypeError ''Graph must not contain inplace operations'' node)
         | None \<Rightarrow> Inr new_env)
      else Inr new_env)"

text \<open>
  \<^verbatim>\<open>li != l0\<close> on two lists of events: the lists differ when their lengths differ or when
  \<^verbatim>\<open>__eq__\<close> fails at some position.
\<close>

fun event_list_eq :: "'ty event list \<Rightarrow> 'ty event list \<Rightarrow> bool" where
  "event_list_eq [] [] = True"
| "event_list_eq (x # xs) (y # ys) = (EnvEvent_eq x y \<and> event_list_eq xs ys)"
| "event_list_eq xs ys = False"

definition event_list_ne :: "'ty event list \<Rightarrow> 'ty event list \<Rightarrow> bool" where
  "event_list_ne li l0 = (\<not> event_list_eq li l0)"

text \<open>
  The rows that the harness prints into the message of \<^verbatim>\<open>StochasticOrder\<close>, one for each
  index at which the two logs differ: the index, and \<^verbatim>\<open>str\<close> of the event of each log, or
  \<^verbatim>\<open>'-'\<close> past the end of a log. \<open>str_event\<close> is \<^verbatim>\<open>_EnvEvent.__str__\<close>, which renders the
  operator and the node of the event through their own, external, \<^verbatim>\<open>__str__\<close>.
\<close>

definition trace_rows ::
  "('ty event \<Rightarrow> string) \<Rightarrow> 'ty event list \<Rightarrow> 'ty event list \<Rightarrow> (nat \<times> string \<times> string) list" where
  "trace_rows str_event li l0 =
     [(j, (if j < length li then str_event (li ! j) else ''-''),
          (if j < length l0 then str_event (l0 ! j) else ''-'')).
        j \<leftarrow> [0..<max (length li) (length l0)],
        j \<ge> length li \<or> j \<ge> length l0 \<or> EnvEvent_ne (li ! j) (l0 ! j)]"

text \<open>
  The loop \<^verbatim>\<open>for i in xrange(mode.stability_patience)\<close> of \<^verbatim>\<open>_Maker.__init__\<close>. \<open>clone i\<close> is the
  \<^verbatim>\<open>Env\<close> built on the clone of run \<open>i\<close>, and \<open>optimizer i\<close> is what the optimizer does to the
  \<^verbatim>\<open>Env\<close> in run \<open>i\<close>: it may depend on the run, as an optimizer does that visits nodes in
  the order of their addresses. The local variables \<^verbatim>\<open>env0\<close> and \<^verbatim>\<open>env\<close> are unbound at first.
\<close>

fun Maker_loop ::
  "(nat \<Rightarrow> 'ty env) \<Rightarrow> (nat \<Rightarrow> 'ty env \<Rightarrow> 'ty env) \<Rightarrow> ('ty event \<Rightarrow> string) \<Rightarrow> bool \<Rightarrow> nat list
     \<Rightarrow> 'ty env option \<times> 'ty env option \<Rightarrow> ('ty, 'a) error + ('ty env option \<times> 'ty env option)" where
  "Maker_loop clone optimizer str_event accept_inplace [] (env0, env) = Inr (env0, env)"
| "Maker_loop clone optimizer str_event accept_inplace (i # rest) (env0, env) =
     (case optcheck_env (clone i) accept_inplace of
        Inl e \<Rightarrow> Inl e
      | Inr new_env \<Rightarrow>
          (let env' = optimizer i new_env in
           if i \<noteq> 0 then
             (case env0 of
                None \<Rightarrow> Inl UnboundLocalError
              | Some first_env \<Rightarrow>
                  (let li = event_list (equivalence_tracker env');
                       l0 = event_list (equivalence_tracker first_env)
                   in if event_list_ne li l0
                      then Inl (StochasticOrder (trace_rows str_event li l0))
                      else Maker_loop clone optimizer str_event accept_inplace rest
                             (env0, Some env')))
           else Maker_loop clone optimizer str_event accept_inplace rest (Some env', Some env')))"

text \<open>
  \<^verbatim>\<open>_Maker.__init__\<close> up to \<^verbatim>\<open>self.env = env\<close>: the result is the \<^verbatim>\<open>Env\<close> that the maker keeps
  and gives to the linker. \<^verbatim>\<open>del env0\<close> raises when the loop has bound nothing.
\<close>

definition Maker_init ::
  "(nat \<Rightarrow> 'ty env) \<Rightarrow> (nat \<Rightarrow> 'ty env \<Rightarrow> 'ty env) \<Rightarrow> ('ty event \<Rightarrow> string) \<Rightarrow> bool \<Rightarrow> int
     \<Rightarrow> ('ty, 'a) error + 'ty env" where
  "Maker_init clone optimizer str_event accept_inplace stability_patience =
     (case Maker_loop clone optimizer str_event accept_inplace [0..<nat stability_patience]
             (None, None) of
        Inl e \<Rightarrow> Inl e
      | Inr (env0, env) \<Rightarrow>
          (case env0 of
             None \<Rightarrow> Inl UnboundLocalError
           | Some first_env \<Rightarrow>
               (case env of None \<Rightarrow> Inl UnboundLocalError | Some last_env \<Rightarrow> Inr last_env)))"

text \<open>\<^verbatim>\<open>DebugMode.__init__\<close>\<close>

record mode =
  optimizer_name :: string
  stability_patience :: int
  check_c_code :: bool
  check_py_code :: bool

definition DebugMode_init :: "string \<Rightarrow> int \<Rightarrow> bool \<Rightarrow> bool \<Rightarrow> ('ty, 'a) error + mode" where
  "DebugMode_init optimizer patience c_code py_code =
     (if \<not> (c_code \<or> py_code)
      then Inl (PyValueError ''DebugMode has to check at least one of c and py code'')
      else Inr \<lparr>optimizer_name = optimizer, stability_patience = patience,
                check_c_code = c_code, check_py_code = py_code\<rparr>)"

section \<open>Notions used in the statements\<close>

text \<open>The event log that run \<open>i\<close> of the optimizer leaves in the tracker of its \<^verbatim>\<open>Env\<close>.\<close>

definition run_log :: "(nat \<Rightarrow> 'ty env) \<Rightarrow> (nat \<Rightarrow> 'ty env \<Rightarrow> 'ty env) \<Rightarrow> nat \<Rightarrow> 'ty event list" where
  "run_log clone optimizer i = event_list (equivalence_tracker (optimizer i (clone i)))"

text \<open>
  The condition under which \<^verbatim>\<open>_optcheck_env\<close> does not reject the graph: in-place operations are
  accepted, or no node has a non-empty \<^verbatim>\<open>destroy_map\<close>.
\<close>

definition inplace_accepted :: "bool \<Rightarrow> 'ty env \<Rightarrow> bool" where
  "inplace_accepted accept_inplace e =
     (accept_inplace \<or> (\<forall>node \<in> set (env_nodes e). destroy_map (op node) = []))"

text \<open>
  A reason chain of \<open>new_r\<close> can be checked when \<open>new_r\<close> and every variable it replaced have
  a value in \<^verbatim>\<open>r_vals\<close>, and every replaced variable has the type of \<open>new_r\<close>, as the
  assertion of \<^verbatim>\<open>_find_bad_optimizations0\<close> demands.
\<close>

definition chain_checkable ::
  "('ty variable \<rightharpoonup> 'a pyval) \<Rightarrow> 'ty variable \<Rightarrow> 'ty reason_entry list \<Rightarrow> bool" where
  "chain_checkable rv new_r chain =
     (new_r \<in> dom rv \<and> (\<forall>ent \<in> set chain. fst (snd ent) \<in> dom rv \<and> vtype (fst (snd ent)) = vtype new_r))"

text \<open>The value of the replaced variable of an entry is approximately equal to that of \<open>new_r\<close>.\<close>

definition entry_agrees ::
  "('ty, 'a) contract \<Rightarrow> ('ty variable \<rightharpoonup> 'a pyval) \<Rightarrow> 'ty variable \<Rightarrow> 'ty reason_entry \<Rightarrow> bool" where
  "entry_agrees c rv new_r ent =
     values_eq_approx c (vtype (fst (snd ent))) (the (rv (fst (snd ent)))) (the (rv new_r))"

text \<open>
  A compiled output agrees with the reference run: the variable has a value in \<^verbatim>\<open>r_vals\<close>,
  its storage cell holds a value that is valid for its type, and the two are approximately
  equal.
\<close>

definition output_agrees :: "('ty, 'a) contract \<Rightarrow> ('ty, 'a) fstate \<Rightarrow> 'ty variable \<Rightarrow> bool" where
  "output_agrees c s r =
     (case r_vals s r of
        None \<Rightarrow> False
      | Some val_py \<Rightarrow>
          (case map_of (storage_map s) r of
             None \<Rightarrow> False
           | Some cell \<Rightarrow> is_valid_value c (vtype r) cell \<and> values_eq_approx c (vtype r) val_py cell))"

text \<open>
  After a thunk has run, the storage cell of an input is not approximately equal to the value
  that \<^verbatim>\<open>r_vals\<close> holds for it.
\<close>

definition input_differs :: "('ty, 'a) contract \<Rightarrow> ('ty, 'a) fstate \<Rightarrow> 'ty variable \<Rightarrow> bool" where
  "input_differs c s r =
     (\<not> values_eq_approx c (vtype r) (the (r_vals s r)) (the (map_of (storage_map s) r)))"

text \<open>An input that differs and whose variable is not among the destroyed ones.\<close>

definition undeclared_change ::
  "('ty, 'a) contract \<Rightarrow> 'ty variable list \<Rightarrow> ('ty, 'a) fstate \<Rightarrow> 'ty variable \<Rightarrow> bool" where
  "undeclared_change c destroyed s r = (r \<notin> set destroyed \<and> input_differs c s r)"

text \<open>
  An input that differs, whose variable is among the destroyed ones, of an active node, and
  that \<^verbatim>\<open>dr_vals\<close> records as destroyed by another node.
\<close>

definition ordering_failure ::
  "('ty, 'a) contract \<Rightarrow> 'ty apply_node \<Rightarrow> 'ty variable list \<Rightarrow> 'ty apply_node set
     \<Rightarrow> ('ty, 'a) fstate \<Rightarrow> 'ty variable \<Rightarrow> bool" where
  "ordering_failure c node destroyed A s r =
     (r \<in> set destroyed \<and> input_differs c s r \<and> node \<in> A
      \<and> (case dr_vals s r of None \<Rightarrow> False | Some (v, n) \<Rightarrow> n \<noteq> node))"

text \<open>
  The operator of the node declares that its output \<open>oi\<close> is a view of its input \<open>ii\<close>, or
  that it destroys it: \<^verbatim>\<open>[ii] == view_map.get(oi, None) or [ii] == destroy_map.get(oi, None)\<close>.
\<close>

definition alias_declared :: "'ty apply_node \<Rightarrow> nat \<Rightarrow> nat \<Rightarrow> bool" where
  "alias_declared node oi ii =
     (Some [ii] = map_of (view_map (op node)) oi \<or> Some [ii] = map_of (destroy_map (op node)) oi)"

text \<open>
  The invariant of the store of equivalence classes: the set that a variable refers to
  exists, contains the variable, and every member of it refers to the same set.
\<close>

definition tracker_inv :: "'ty tracker \<Rightarrow> bool" where
  "tracker_inv t =
     (\<forall>v k. equiv_dict t v = Some k \<longrightarrow>
        k < length (sets t) \<and> v \<in> sets t ! k \<and> (\<forall>w \<in> sets t ! k. equiv_dict t w = Some k))"

text \<open>The pair \<^verbatim>\<open>(reason, old_r)\<close> of an entry of a reason chain.\<close>

definition entry_key :: "'ty reason_entry \<Rightarrow> reason \<times> 'ty variable" where
  "entry_key ent = (fst ent, fst (snd ent))"

text \<open>In every reason chain, each pair \<^verbatim>\<open>(reason, old_r)\<close> occurs at most once.\<close>

definition chains_distinct :: "'ty tracker \<Rightarrow> bool" where
  "chains_distinct t = (\<forall>v chain. reasons t v = Some chain \<longrightarrow> distinct (map entry_key chain))"

text \<open>
  The states that the tracker reaches from \<^verbatim>\<open>on_attach\<close> through events that it handles
  without raising.
\<close>

inductive reachable :: "'ty tracker \<Rightarrow> bool" where
  reachable_attach: "reachable on_attach"
| reachable_import:
    "reachable t \<Longrightarrow> (on_import t node :: ('ty, unit, 'ty tracker) outcome) = (None, t')
     \<Longrightarrow> reachable t'"
| reachable_prune:
    "reachable t \<Longrightarrow> (on_prune t node :: ('ty, unit, 'ty tracker) outcome) = (None, t')
     \<Longrightarrow> reachable t'"
| reachable_change:
    "reachable t \<Longrightarrow>
     (on_change_input debugprint t ev_n i r new_r rsn :: ('ty, unit, 'ty tracker) outcome) = (None, t')
     \<Longrightarrow> reachable t'"

section \<open>Example inputs\<close>

text \<open>
  A graph \<^verbatim>\<open>z = add(x, x)\<close>, and two optimizers: one that leaves the same event log in every
  run, and one whose second log is the first one in another order.
\<close>

definition ex_x :: "nat variable" where
  "ex_x = \<lparr>vid = 0, vtype = 0, owner = None, clients = [(NodeClient 0, 0), (NodeClient 0, 1)]\<rparr>"

definition ex_z :: "nat variable" where
  "ex_z = \<lparr>vid = 1, vtype = 0, owner = Some 0, clients = [(OutputClient, 0)]\<rparr>"

definition ex_add :: operator where
  "ex_add = \<lparr>op_name = ''add'', destroy_map = [], view_map = []\<rparr>"

definition ex_node :: "nat apply_node" where
  "ex_node = \<lparr>nid = 0, op = ex_add, inputs = [ex_x, ex_x], outputs = [ex_z]\<rparr>"

definition ex_clone :: "nat \<Rightarrow> nat env" where
  "ex_clone i = \<lparr>env_id = i, env_nodes = [ex_node], equivalence_tracker = on_attach\<rparr>"

definition ex_import :: "nat event" where
  "ex_import = EnvEvent Import (ApplyNode ex_node) None None"

definition ex_prune :: "nat event" where
  "ex_prune = EnvEvent Prune (ApplyNode ex_node) None None"

definition ex_stable_optimizer :: "nat \<Rightarrow> nat env \<Rightarrow> nat env" where
  "ex_stable_optimizer i e =
     e\<lparr>equivalence_tracker := (equivalence_tracker e)\<lparr>event_list := [ex_import, ex_prune]\<rparr>\<rparr>"

definition ex_unstable_optimizer :: "nat \<Rightarrow> nat env \<Rightarrow> nat env" where
  "ex_unstable_optimizer i e =
     e\<lparr>equivalence_tracker := (equivalence_tracker e)
          \<lparr>event_list := (if i = 0 then [ex_import, ex_prune] else [ex_prune, ex_import])\<rparr>\<rparr>"

definition ex_str_event :: "nat event \<Rightarrow> string" where
  "ex_str_event e = (case ev_kind e of Import \<Rightarrow> ''import'' | Change \<Rightarrow> ''change'' | Prune \<Rightarrow> ''prune'')"

text \<open>A graph with an in-place operator, \<^verbatim>\<open>y = neg_inplace(x)\<close>.\<close>

definition ex_neg_inplace :: operator where
  "ex_neg_inplace = \<lparr>op_name = ''neg_inplace'', destroy_map = [(0, [0])], view_map = []\<rparr>"

definition ex_y :: "nat variable" where
  "ex_y = \<lparr>vid = 2, vtype = 0, owner = Some 1, clients = [(OutputClient, 0)]\<rparr>"

definition ex_inplace_node :: "nat apply_node" where
  "ex_inplace_node = \<lparr>nid = 1, op = ex_neg_inplace, inputs = [ex_x], outputs = [ex_y]\<rparr>"

definition ex_inplace_env :: "nat env" where
  "ex_inplace_env = \<lparr>env_id = 0, env_nodes = [ex_inplace_node], equivalence_tracker = on_attach\<rparr>"

text \<open>
  A value contract for the examples. A runtime object is a pair of its address and its
  content; two objects are approximately equal when their contents are equal, a negative
  content is invalid, a copy lives at a new address, and two objects may share memory when
  they have the same address.
\<close>

definition ex_values_eq_approx :: "nat \<Rightarrow> (nat \<times> int) pyval \<Rightarrow> (nat \<times> int) pyval \<Rightarrow> bool" where
  "ex_values_eq_approx t a b =
     (case a of
        PyNone \<Rightarrow> (case b of PyNone \<Rightarrow> True | PyObj y \<Rightarrow> False)
      | PyObj x \<Rightarrow> (case b of PyNone \<Rightarrow> False | PyObj y \<Rightarrow> snd x = snd y))"

definition ex_is_valid_value :: "nat \<Rightarrow> (nat \<times> int) pyval \<Rightarrow> bool" where
  "ex_is_valid_value t a = (case a of PyNone \<Rightarrow> False | PyObj x \<Rightarrow> 0 \<le> snd x)"

definition ex_deepcopy :: "(nat \<times> int) pyval \<Rightarrow> (nat \<times> int) pyval" where
  "ex_deepcopy a = (case a of PyNone \<Rightarrow> PyNone | PyObj x \<Rightarrow> PyObj (fst x + 100, snd x))"

definition ex_py_id :: "(nat \<times> int) pyval \<Rightarrow> nat" where
  "ex_py_id a = (case a of PyNone \<Rightarrow> 0 | PyObj x \<Rightarrow> Suc (fst x))"

definition ex_ndarray_without_owndata :: "(nat \<times> int) pyval \<Rightarrow> bool" where
  "ex_ndarray_without_owndata a = False"

definition ex_has_array_interface :: "(nat \<times> int) pyval \<Rightarrow> bool" where
  "ex_has_array_interface a = (a \<noteq> PyNone)"

definition ex_numpy_may_share_memory :: "(nat \<times> int) pyval \<Rightarrow> (nat \<times> int) pyval \<Rightarrow> bool" where
  "ex_numpy_may_share_memory a b = (ex_py_id a = ex_py_id b)"

definition ex_contract :: "(nat, nat \<times> int) contract" where
  "ex_contract =
     \<lparr>values_eq_approx = ex_values_eq_approx, is_valid_value = ex_is_valid_value,
      deepcopy = ex_deepcopy, py_id = ex_py_id,
      ndarray_without_owndata = ex_ndarray_without_owndata,
      has_array_interface = ex_has_array_interface,
      numpy_may_share_memory = ex_numpy_may_share_memory\<rparr>"

text \<open>
  A rewrite that replaced \<open>x\<close> by \<open>z\<close> although their values differ, and one that replaced a
  variable \<open>w\<close> of another type by \<open>z\<close>.
\<close>

definition ex_w :: "nat variable" where
  "ex_w = \<lparr>vid = 3, vtype = 1, owner = None, clients = []\<rparr>"

definition ex_reasons :: "nat variable \<rightharpoonup> nat reason_entry list" where
  "ex_reasons = [ex_z \<mapsto> [(Some ''opt'', ex_x, ''old graph'', ''new graph'')]]"

definition ex_r_vals :: "nat variable \<rightharpoonup> (nat \<times> int) pyval" where
  "ex_r_vals = [ex_x \<mapsto> PyObj (0, 1), ex_z \<mapsto> PyObj (1, 2)]"

definition ex_mistyped_reasons :: "nat variable \<rightharpoonup> nat reason_entry list" where
  "ex_mistyped_reasons = [ex_z \<mapsto> [(Some ''opt'', ex_w, ''old graph'', ''new graph'')]]"

definition ex_mistyped_r_vals :: "nat variable \<rightharpoonup> (nat \<times> int) pyval" where
  "ex_mistyped_r_vals = [ex_w \<mapsto> PyObj (0, 1), ex_z \<mapsto> PyObj (1, 2)]"

text \<open>
  The reference thunk of \<^verbatim>\<open>add\<close> on the example values, the jobs of the one-node order, a
  storage map in which the input \<open>x\<close> is missing, and one in which, besides, the input \<open>w\<close>,
  visited first, holds an invalid value.
\<close>

definition ex_add_thunk :: "(nat, nat \<times> int) thunk" where
  "ex_add_thunk sm = AList.update ex_z (PyObj (7, 2)) sm"

definition ex_jobs ::
  "((nat, nat \<times> int) thunk option \<times> (nat, nat \<times> int) thunk option \<times> nat apply_node) list" where
  "ex_jobs = [(Some ex_add_thunk, None, ex_node)]"

definition ex_missing_storage :: "(nat variable \<times> (nat \<times> int) pyval) list" where
  "ex_missing_storage = [(ex_x, PyNone), (ex_z, PyNone)]"

definition ex_invalid_storage :: "(nat variable \<times> (nat \<times> int) pyval) list" where
  "ex_invalid_storage = [(ex_w, PyObj (0, - 1)), (ex_x, PyNone), (ex_z, PyNone)]"

text \<open>
  The state in which the node is evaluated, \<open>x\<close> having the value 1; a compiled thunk whose
  output is invalid and differs from the output of the reference thunk; and the state after
  a compiled thunk has left a valid output 3 where the reference thunk had computed 2.
\<close>

definition ex_start_state :: "(nat, nat \<times> int) fstate" where
  "ex_start_state =
     \<lparr>storage_map = [(ex_x, PyNone), (ex_z, PyNone)], r_vals = [ex_x \<mapsto> PyObj (0, 1)],
      dr_vals = Map.empty\<rparr>"

definition ex_invalid_c_thunk :: "(nat, nat \<times> int) thunk" where
  "ex_invalid_c_thunk sm = AList.update ex_z (PyObj (8, - 3)) sm"

definition ex_c_state :: "(nat, nat \<times> int) fstate" where
  "ex_c_state =
     \<lparr>storage_map = [(ex_x, PyObj (100, 1)), (ex_z, PyObj (8, 3))],
      r_vals = [ex_x \<mapsto> PyObj (0, 1), ex_z \<mapsto> PyObj (7, 2)],
      dr_vals = Map.empty\<rparr>"

text \<open>
  An operator \<^verbatim>\<open>neg\<close> that declares no \<^verbatim>\<open>destroy_map\<close>, an operator \<^verbatim>\<open>add_inplace\<close> that declares
  that output 0 destroys input 0, applied to \<^verbatim>\<open>(x, x)\<close>, and the state after a thunk has
  overwritten the copy of \<open>x\<close>, whose value is 1, with 5.
\<close>

definition ex_neg :: operator where
  "ex_neg = \<lparr>op_name = ''neg'', destroy_map = [], view_map = []\<rparr>"

definition ex_neg_node :: "nat apply_node" where
  "ex_neg_node = \<lparr>nid = 2, op = ex_neg, inputs = [ex_x], outputs = [ex_y]\<rparr>"

definition ex_inplace_add :: operator where
  "ex_inplace_add = \<lparr>op_name = ''add_inplace'', destroy_map = [(0, [0])], view_map = []\<rparr>"

definition ex_inplace_add_node :: "nat apply_node" where
  "ex_inplace_add_node = \<lparr>nid = 3, op = ex_inplace_add, inputs = [ex_x, ex_x], outputs = [ex_z]\<rparr>"

definition ex_mutated_state :: "(nat, nat \<times> int) fstate" where
  "ex_mutated_state =
     \<lparr>storage_map = [(ex_x, PyObj (100, 5)), (ex_y, PyObj (100, 5)), (ex_z, PyObj (100, 5))],
      r_vals = [ex_x \<mapsto> PyObj (0, 1)], dr_vals = Map.empty\<rparr>"










text \<open>
  The tracker after the node \<^verbatim>\<open>z = add(x, x)\<close> has been imported, and the text that stands for
  the rendering of a variable's graph.
\<close>

definition ex_imported_tracker :: "nat tracker" where
  "ex_imported_tracker =
     \<lparr>equiv_dict = [ex_z \<mapsto> 0], sets = [{ex_z}], active_nodes = {ex_node}, inactive_nodes = {},
      all_variables_ever = [ex_z], reasons = [ex_z \<mapsto> [], ex_x \<mapsto> []],
      replaced_by = [ex_z \<mapsto> [], ex_x \<mapsto> []], event_list = [ex_import]\<rparr>"

definition ex_debugprint :: "nat variable \<Rightarrow> string" where
  "ex_debugprint v = (if vid v = 1 then ''   add 0'' else ''   var'')"

section \<open>Sequencing\<close>

lemma and_then_raised [simp]: "and_then (Some e, s) k = (Some e, s)"
  by (simp add: and_then_def)

lemma and_then_returned [simp]: "and_then (None, s) k = k s"
  by (simp add: and_then_def)

lemma and_then_cases:
  "and_then m k = (e, s') \<Longrightarrow>
   (\<exists>e0. m = (Some e0, s') \<and> e = Some e0) \<or> (\<exists>s1. m = (None, s1) \<and> k s1 = (e, s'))"
  by (cases m) (auto simp: and_then_def split: option.splits)

lemma if_elseI: "\<not> P \<Longrightarrow> B \<Longrightarrow> (if P then A else B)"
  by simp

lemma if_thenI: "P \<Longrightarrow> A \<Longrightarrow> (if P then A else B)"
  by simp

section \<open>Properties of the optimizer harness\<close>

lemma event_list_eq_iff:
  "event_list_eq li l0 \<longleftrightarrow> length li = length l0 \<and> (\<forall>j<length li. EnvEvent_eq (li ! j) (l0 ! j))"
proof (induction li l0 rule: event_list_eq.induct)
  case (2 x xs y ys)
  then show ?case by (auto simp add: All_less_Suc2)
qed auto

lemma optcheck_env_ok:
  assumes "inplace_accepted accept_inplace e"
  shows "optcheck_env e accept_inplace = Inr e"
proof (cases accept_inplace)
  case True
  then show ?thesis by (simp add: optcheck_env_def)
next
  case False
  with assms have "find (\<lambda>node. destroy_map (op node) \<noteq> []) (env_nodes e) = None"
    by (simp add: find_None_iff inplace_accepted_def)
  with False show ?thesis by (simp add: optcheck_env_def)
qed

lemma Maker_loop_later_runs:
  assumes "\<forall>i \<in> set runs. i \<noteq> 0 \<and> inplace_accepted acc (clone i)"
  shows "Maker_loop clone optimizer str acc runs (Some e0, env) =
     (case find (\<lambda>i. event_list_ne (run_log clone optimizer i) (event_list (equivalence_tracker e0))) runs of
        Some k \<Rightarrow> Inl (StochasticOrder
                    (trace_rows str (run_log clone optimizer k) (event_list (equivalence_tracker e0))))
      | None \<Rightarrow> Inr (Some e0, if runs = [] then env
                              else Some (optimizer (last runs) (clone (last runs)))))"
  using assms
proof (induction runs arbitrary: env)
  case Nil
  then show ?case by simp
next
  case (Cons i rest)
  have i: "i \<noteq> 0" using Cons.prems by auto
  have "inplace_accepted acc (clone i)" using Cons.prems by auto
  note ok = optcheck_env_ok[OF this]
  have rest: "\<forall>i \<in> set rest. i \<noteq> 0 \<and> inplace_accepted acc (clone i)"
    using Cons.prems by auto
  show ?case
    using Cons.IH[OF rest] by (auto simp add: i ok run_log_def Let_def split: option.splits)
qed

lemma Maker_loop_all_runs:
  assumes "\<forall>i < n. inplace_accepted acc (clone i)" and "0 < n"
  shows "Maker_loop clone optimizer str acc [0..<n] (None, None) =
     (case find (\<lambda>i. event_list_ne (run_log clone optimizer i) (run_log clone optimizer 0)) [1..<n] of
        Some k \<Rightarrow> Inl (StochasticOrder
                    (trace_rows str (run_log clone optimizer k) (run_log clone optimizer 0)))
      | None \<Rightarrow> Inr (Some (optimizer 0 (clone 0)), Some (optimizer (n - 1) (clone (n - 1)))))"
proof -
  have split: "[0..<n] = 0 # [1..<n]"
    using assms(2) by (simp add: upt_conv_Cons)
  have later: "\<forall>i \<in> set [1..<n]. i \<noteq> 0 \<and> inplace_accepted acc (clone i)"
    using assms(1) by auto
  have "inplace_accepted acc (clone 0)"
    using assms by simp
  note first = optcheck_env_ok[OF this]
  have last_run: "[1..<n] \<noteq> [] \<Longrightarrow> last [1..<n] = n - 1"
    by (cases n) (auto simp del: upt_Suc simp: upt_Suc_append)
  have "Maker_loop clone optimizer str acc (0 # [1..<n]) (None, None) =
        Maker_loop clone optimizer str acc [1..<n]
          (Some (optimizer 0 (clone 0)), Some (optimizer 0 (clone 0)))"
    by (simp add: first Let_def del: upt.simps)
  also have "\<dots> = (case find (\<lambda>i. event_list_ne (run_log clone optimizer i) (run_log clone optimizer 0)) [1..<n] of
        Some k \<Rightarrow> Inl (StochasticOrder
                    (trace_rows str (run_log clone optimizer k) (run_log clone optimizer 0)))
      | None \<Rightarrow> Inr (Some (optimizer 0 (clone 0)), Some (optimizer (n - 1) (clone (n - 1)))))"
  proof (cases "[1..<n] = []")
    case True
    then have "n = 1" using assms(2) by auto
    then show ?thesis by (simp add: run_log_def)
  next
    case False
    then show ?thesis
      by (simp only: Maker_loop_later_runs[OF later] last_run[OF False] if_False run_log_def)
  qed
  finally show ?thesis by (simp only: split)
qed


lemma comprehension_first:
  assumes "j < m" and "P j" and "\<forall>j'<j. \<not> P j'"
  shows "concat (map (\<lambda>j. if P j then [g j] else []) [0..<m]) =
         g j # concat (map (\<lambda>j. if P j then [g j] else []) [Suc j..<m])"
proof -
  have split: "[0..<m] = [0..<j] @ j # [Suc j..<m]"
  proof -
    obtain k where m: "m = j + k" using assms(1) by (metis less_imp_le_nat le_Suc_ex)
    have "[0..<j + k] = [0..<j] @ [j..<j + k]" by (rule upt_add_eq_append) simp
    moreover have "[j..<m] = j # [Suc j..<m]" using assms(1) by (rule upt_conv_Cons)
    ultimately show ?thesis by (simp only: m)
  qed
  have none: "concat (map (\<lambda>j. if P j then [g j] else []) [0..<j]) = []"
    using assms(3) by simp
  show ?thesis
    by (simp only: split map_append concat_append none append_Nil list.map concat.simps assms(2) if_True append_Cons)
qed

lemma event_list_ne_index:
  assumes "event_list_ne li l0"
  shows "\<exists>j < max (length li) (length l0).
           j \<ge> length li \<or> j \<ge> length l0 \<or> EnvEvent_ne (li ! j) (l0 ! j)"
proof (cases "length li = length l0")
  case True
  with assms obtain j where "j < length li" "\<not> EnvEvent_eq (li ! j) (l0 ! j)"
    by (auto simp: event_list_ne_def event_list_eq_iff)
  then have "j < max (length li) (length l0)" "EnvEvent_ne (li ! j) (l0 ! j)"
    by (simp_all add: EnvEvent_ne_def)
  then show ?thesis by blast
next
  case False
  then have "min (length li) (length l0) < max (length li) (length l0)" by auto
  moreover have "min (length li) (length l0) \<ge> length li \<or> min (length li) (length l0) \<ge> length l0"
    by auto
  ultimately show ?thesis by blast
qed

lemma trace_rows_first:
  assumes "event_list_ne li l0"
  shows "\<exists>j rest. trace_rows str li l0 =
                     (j, (if j < length li then str (li ! j) else ''-''),
                         (if j < length l0 then str (l0 ! j) else ''-'')) # rest
                 \<and> (\<forall>j'<j. j' < length li \<and> j' < length l0 \<and> EnvEvent_eq (li ! j') (l0 ! j'))
                 \<and> (j \<ge> length li \<or> j \<ge> length l0 \<or> \<not> EnvEvent_eq (li ! j) (l0 ! j))"
proof -
  let ?P = "\<lambda>j. j \<ge> length li \<or> j \<ge> length l0 \<or> EnvEvent_ne (li ! j) (l0 ! j)"
  let ?m = "max (length li) (length l0)"
  from event_list_ne_index[OF assms] have "\<exists>j. j < ?m \<and> ?P j" by blast
  then obtain j where j: "j < ?m \<and> ?P j" and least: "\<forall>j'<j. \<not> (j' < ?m \<and> ?P j')"
    using exists_least_iff[of "\<lambda>j. j < ?m \<and> ?P j"] by blast
  have below: "\<forall>j'<j. \<not> ?P j'"
    using least j by (metis less_trans)
  have "trace_rows str li l0 =
          (j, (if j < length li then str (li ! j) else ''-''),
              (if j < length l0 then str (l0 ! j) else ''-''))
          # concat (map (\<lambda>j. if ?P j
                              then [(j, (if j < length li then str (li ! j) else ''-''),
                                        (if j < length l0 then str (l0 ! j) else ''-''))]
                              else []) [Suc j..<?m])"
    unfolding trace_rows_def
    by (rule comprehension_first[of j ?m ?P, OF conjunct1[OF j] conjunct2[OF j] below])
  moreover have "\<forall>j'<j. j' < length li \<and> j' < length l0 \<and> EnvEvent_eq (li ! j') (l0 ! j')"
    using below by (auto simp: EnvEvent_ne_def)
  moreover have "j \<ge> length li \<or> j \<ge> length l0 \<or> \<not> EnvEvent_eq (li ! j) (l0 ! j)"
    using j by (auto simp: EnvEvent_ne_def)
  ultimately show ?thesis by blast
qed

lemma find_upt_Some:
  assumes "find P [a..<b] = Some k"
  shows "a \<le> k \<and> k < b \<and> P k \<and> (\<forall>m. a \<le> m \<and> m < k \<longrightarrow> \<not> P m)"
proof -
  from assms obtain i where i: "i < length [a..<b]" "P ([a..<b] ! i)" "k = [a..<b] ! i"
    and before: "\<forall>j<i. \<not> P ([a..<b] ! j)"
    unfolding find_Some_iff by blast
  have k: "k = a + i" "a + i < b" using i by auto
  have "\<not> P m" if "a \<le> m" "m < k" for m
  proof -
    have "m - a < i" using that k by arith
    moreover have "[a..<b] ! (m - a) = m" using that k by simp
    ultimately show ?thesis using before by metis
  qed
  then show ?thesis using i k by auto
qed

lemma find_upt_None: "find P [a..<b] = None \<longleftrightarrow> (\<forall>m. a \<le> m \<and> m < b \<longrightarrow> \<not> P m)"
  by (auto simp: find_None_iff)

lemma Maker_init_unbound:
  "nat n = 0 \<Longrightarrow> Maker_init clone optimizer str acc n = Inl UnboundLocalError"
  by (simp add: Maker_init_def)

lemma Maker_init_stable:
  assumes "\<forall>i < nat n. inplace_accepted acc (clone i)" and "0 < nat n"
    and "\<forall>i. 0 < i \<and> i < nat n \<longrightarrow> event_list_eq (run_log clone optimizer i) (run_log clone optimizer 0)"
  shows "Maker_init clone optimizer str acc n = Inr (optimizer (nat n - 1) (clone (nat n - 1)))"
proof -
  have "find (\<lambda>i. event_list_ne (run_log clone optimizer i) (run_log clone optimizer 0)) [1..<nat n] = None"
    unfolding find_upt_None using assms(3) by (auto simp: event_list_ne_def)
  then show ?thesis
    unfolding Maker_init_def Maker_loop_all_runs[OF assms(1,2)] by simp
qed

lemma Maker_init_unstable:
  assumes "\<forall>i < nat n. inplace_accepted acc (clone i)"
    and "0 < i" "i < nat n"
    and "event_list_ne (run_log clone optimizer i) (run_log clone optimizer 0)"
  shows "\<exists>k. 0 < k \<and> k \<le> i
           \<and> event_list_ne (run_log clone optimizer k) (run_log clone optimizer 0)
           \<and> (\<forall>m. 0 < m \<and> m < k \<longrightarrow> event_list_eq (run_log clone optimizer m) (run_log clone optimizer 0))
           \<and> (Maker_init clone optimizer str acc n :: ('ty, 'a) error + 'ty env) =
               Inl (StochasticOrder (trace_rows str (run_log clone optimizer k) (run_log clone optimizer 0)))"
proof -
  let ?P = "\<lambda>i. event_list_ne (run_log clone optimizer i) (run_log clone optimizer 0)"
  have pos: "0 < nat n" using assms(2,3) by arith
  have "find ?P [1..<nat n] \<noteq> None"
    unfolding find_upt_None using assms(2,3,4) by (metis Suc_leI One_nat_def)
  then obtain k where k: "find ?P [1..<nat n] = Some k" by auto
  note props = find_upt_Some[OF k]
  have "k \<le> i"
  proof (rule ccontr)
    assume "\<not> k \<le> i"
    then have "1 \<le> i \<and> i < k" using assms(2) by arith
    with props assms(4) show False by blast
  qed
  then have "k \<le> i" .
  have shown: "(Maker_init clone optimizer str acc n :: ('ty, 'a) error + 'ty env) =
      Inl (StochasticOrder (trace_rows str (run_log clone optimizer k) (run_log clone optimizer 0)))"
    unfolding Maker_init_def Maker_loop_all_runs[OF assms(1) pos] k by simp
  have earlier: "\<forall>m. 0 < m \<and> m < k \<longrightarrow> event_list_eq (run_log clone optimizer m) (run_log clone optimizer 0)"
    using props by (auto simp: event_list_ne_def)
  have "0 < k" "event_list_ne (run_log clone optimizer k) (run_log clone optimizer 0)"
    using props by auto
  with \<open>k \<le> i\<close> shown earlier show ?thesis by blast
qed

text \<open>
  Claim C2. The harness runs the optimizer once for each of the \<^verbatim>\<open>stability_patience\<close> clones.
  If the log of a later run differs from the log of the first run, \<^verbatim>\<open>StochasticOrder\<close> is
  raised, at the first such run \<open>k\<close>; the first row of its diagnostic carries the first index
  \<open>j\<close> at which the two logs differ, together with the strings of the two events at \<open>j\<close>
  (\<^verbatim>\<open>'-'\<close> for a log that has ended before \<open>j\<close>). If every later log equals the first one, no
  \<^verbatim>\<open>StochasticOrder\<close> is raised, and for a positive patience the harness returns an \<^verbatim>\<open>Env\<close>.
  Two logs are equal when they have the same length and their events agree, index by index,
  on kind, operator, input index and reason; the node of an event plays no part.
\<close>

theorem Maker_init_StochasticOrder:
  assumes "\<forall>i < nat n. inplace_accepted acc (clone i)"
  shows "(\<forall>i. 0 < i \<and> i < nat n
              \<and> event_list_ne (run_log clone optimizer i) (run_log clone optimizer 0) \<longrightarrow>
            (\<exists>k j rest. 0 < k \<and> k \<le> i
               \<and> event_list_ne (run_log clone optimizer k) (run_log clone optimizer 0)
               \<and> (\<forall>m. 0 < m \<and> m < k \<longrightarrow>
                      event_list_eq (run_log clone optimizer m) (run_log clone optimizer 0))
               \<and> (Maker_init clone optimizer str acc n :: ('ty, 'a) error + 'ty env) =
                   Inl (StochasticOrder
                     ((j, (if j < length (run_log clone optimizer k)
                           then str (run_log clone optimizer k ! j) else ''-''),
                          (if j < length (run_log clone optimizer 0)
                           then str (run_log clone optimizer 0 ! j) else ''-'')) # rest))
               \<and> (\<forall>j'<j. j' < length (run_log clone optimizer k)
                        \<and> j' < length (run_log clone optimizer 0)
                        \<and> EnvEvent_eq (run_log clone optimizer k ! j') (run_log clone optimizer 0 ! j'))
               \<and> (j \<ge> length (run_log clone optimizer k) \<or> j \<ge> length (run_log clone optimizer 0)
                    \<or> \<not> EnvEvent_eq (run_log clone optimizer k ! j) (run_log clone optimizer 0 ! j))))
       \<and> ((\<forall>i. 0 < i \<and> i < nat n \<longrightarrow>
              event_list_eq (run_log clone optimizer i) (run_log clone optimizer 0)) \<longrightarrow>
            (\<forall>rows. (Maker_init clone optimizer str acc n :: ('ty, 'a) error + 'ty env)
                      \<noteq> Inl (StochasticOrder rows))
            \<and> (0 < n \<longrightarrow> (\<exists>kept. (Maker_init clone optimizer str acc n :: ('ty, 'a) error + 'ty env)
                                = Inr kept)))
       \<and> (\<forall>li l0 :: 'ty event list. event_list_eq li l0 \<longleftrightarrow>
            length li = length l0
            \<and> (\<forall>j<length li. ev_kind (li ! j) = ev_kind (l0 ! j) \<and> ev_op (li ! j) = ev_op (l0 ! j)
                    \<and> ev_idx (li ! j) = ev_idx (l0 ! j) \<and> ev_reason (li ! j) = ev_reason (l0 ! j)))
       \<and> (\<forall>(e1 :: 'ty event) e2 node1 node2.
            EnvEvent_eq (e1\<lparr>ev_node := node1\<rparr>) (e2\<lparr>ev_node := node2\<rparr>) = EnvEvent_eq e1 e2)"
proof (intro conjI allI impI)
  fix i
  assume i: "0 < i \<and> i < nat n
              \<and> event_list_ne (run_log clone optimizer i) (run_log clone optimizer 0)"
  from Maker_init_unstable[OF assms, of i optimizer str] i
  obtain k where k: "0 < k" "k \<le> i"
      "event_list_ne (run_log clone optimizer k) (run_log clone optimizer 0)"
      "\<forall>m. 0 < m \<and> m < k \<longrightarrow> event_list_eq (run_log clone optimizer m) (run_log clone optimizer 0)"
      "(Maker_init clone optimizer str acc n :: ('ty, 'a) error + 'ty env) =
         Inl (StochasticOrder (trace_rows str (run_log clone optimizer k) (run_log clone optimizer 0)))"
    by blast
  from trace_rows_first[OF k(3), of str] k
  show "\<exists>k j rest. 0 < k \<and> k \<le> i
               \<and> event_list_ne (run_log clone optimizer k) (run_log clone optimizer 0)
               \<and> (\<forall>m. 0 < m \<and> m < k \<longrightarrow>
                      event_list_eq (run_log clone optimizer m) (run_log clone optimizer 0))
               \<and> (Maker_init clone optimizer str acc n :: ('ty, 'a) error + 'ty env) =
                   Inl (StochasticOrder
                     ((j, (if j < length (run_log clone optimizer k)
                           then str (run_log clone optimizer k ! j) else ''-''),
                          (if j < length (run_log clone optimizer 0)
                           then str (run_log clone optimizer 0 ! j) else ''-'')) # rest))
               \<and> (\<forall>j'<j. j' < length (run_log clone optimizer k)
                        \<and> j' < length (run_log clone optimizer 0)
                        \<and> EnvEvent_eq (run_log clone optimizer k ! j') (run_log clone optimizer 0 ! j'))
               \<and> (j \<ge> length (run_log clone optimizer k) \<or> j \<ge> length (run_log clone optimizer 0)
                    \<or> \<not> EnvEvent_eq (run_log clone optimizer k ! j) (run_log clone optimizer 0 ! j))"
    by (metis (no_types, lifting))
next
  fix rows
  assume stable: "\<forall>i. 0 < i \<and> i < nat n \<longrightarrow>
              event_list_eq (run_log clone optimizer i) (run_log clone optimizer 0)"
  show "(Maker_init clone optimizer str acc n :: ('ty, 'a) error + 'ty env) \<noteq> Inl (StochasticOrder rows)"
  proof (cases "0 < nat n")
    case True
    show ?thesis by (simp add: Maker_init_stable[OF assms True stable])
  next
    case False
    then show ?thesis by (simp add: Maker_init_unbound)
  qed
next
  assume stable: "\<forall>i. 0 < i \<and> i < nat n \<longrightarrow>
              event_list_eq (run_log clone optimizer i) (run_log clone optimizer 0)"
    and "0 < n"
  then have pos: "0 < nat n" by simp
  show "\<exists>kept. (Maker_init clone optimizer str acc n :: ('ty, 'a) error + 'ty env) = Inr kept"
    by (simp add: Maker_init_stable[OF assms pos stable])
next
  fix li l0 :: "'ty event list"
  show "event_list_eq li l0 \<longleftrightarrow>
            length li = length l0
            \<and> (\<forall>j<length li. ev_kind (li ! j) = ev_kind (l0 ! j) \<and> ev_op (li ! j) = ev_op (l0 ! j)
                    \<and> ev_idx (li ! j) = ev_idx (l0 ! j) \<and> ev_reason (li ! j) = ev_reason (l0 ! j))"
    by (simp add: event_list_eq_iff EnvEvent_eq_def)
next
  fix e1 e2 :: "'ty event" and node1 node2
  show "EnvEvent_eq (e1\<lparr>ev_node := node1\<rparr>) (e2\<lparr>ev_node := node2\<rparr>) = EnvEvent_eq e1 e2"
    by (simp add: EnvEvent_eq_def)
qed


lemma ex_clone_accepted: "\<forall>i < nat 2. inplace_accepted False (ex_clone i)"
  by (simp add: inplace_accepted_def ex_clone_def ex_node_def ex_add_def)

lemma ex_unstable_logs:
  "run_log ex_clone ex_unstable_optimizer 0 = [ex_import, ex_prune]"
  "run_log ex_clone ex_unstable_optimizer (Suc 0) = [ex_prune, ex_import]"
  by (simp_all add: run_log_def ex_unstable_optimizer_def)

lemma ex_stable_logs: "run_log ex_clone ex_stable_optimizer i = [ex_import, ex_prune]"
  by (simp add: run_log_def ex_stable_optimizer_def)

lemma ex_events_differ: "\<not> EnvEvent_eq ex_prune ex_import" "\<not> EnvEvent_eq ex_import ex_prune"
  by (simp_all add: EnvEvent_eq_def ex_prune_def ex_import_def EnvEvent_def)

lemma ex_events_same: "EnvEvent_eq ex_prune ex_prune" "EnvEvent_eq ex_import ex_import"
  by (simp_all add: EnvEvent_eq_def)

text \<open>
  Witness for C2: two logs in opposite orders give \<^verbatim>\<open>StochasticOrder\<close> with first differing
  index 0, and two equal logs give none.
\<close>

theorem Maker_init_StochasticOrder_witness:
  "inplace_accepted False (ex_clone 0) \<and> inplace_accepted False (ex_clone 1)
   \<and> event_list_ne (run_log ex_clone ex_unstable_optimizer 1) (run_log ex_clone ex_unstable_optimizer 0)
   \<and> (\<exists>rest. (Maker_init ex_clone ex_unstable_optimizer ex_str_event False 2
                 :: (nat, nat) error + nat env)
              = Inl (StochasticOrder ((0, ''prune'', ''import'') # rest)))
   \<and> (\<forall>rows. (Maker_init ex_clone ex_stable_optimizer ex_str_event False 2
                 :: (nat, nat) error + nat env) \<noteq> Inl (StochasticOrder rows))"
proof -
  have ne: "event_list_ne (run_log ex_clone ex_unstable_optimizer 1)
              (run_log ex_clone ex_unstable_optimizer 0)"
    by (simp add: ex_unstable_logs event_list_ne_def ex_events_differ)
  have first: "\<exists>rest. (Maker_init ex_clone ex_unstable_optimizer ex_str_event False 2
                 :: (nat, nat) error + nat env)
              = Inl (StochasticOrder ((0, ''prune'', ''import'') # rest))"
  proof -
    have i1: "0 < (1::nat) \<and> 1 < nat 2
              \<and> event_list_ne (run_log ex_clone ex_unstable_optimizer 1)
                   (run_log ex_clone ex_unstable_optimizer 0)"
      using ne by simp
    note T = Maker_init_StochasticOrder[OF ex_clone_accepted, of ex_unstable_optimizer ex_str_event]
    from T[THEN conjunct1, THEN spec, of 1, THEN mp, OF i1]
    obtain k j rest where k: "0 < k" "k \<le> 1"
      and res: "(Maker_init ex_clone ex_unstable_optimizer ex_str_event False 2
                  :: (nat, nat) error + nat env) =
         Inl (StochasticOrder
           ((j, (if j < length (run_log ex_clone ex_unstable_optimizer k)
                 then ex_str_event (run_log ex_clone ex_unstable_optimizer k ! j) else ''-''),
                (if j < length (run_log ex_clone ex_unstable_optimizer 0)
                 then ex_str_event (run_log ex_clone ex_unstable_optimizer 0 ! j) else ''-'')) # rest))"
      and before: "\<forall>j'<j. j' < length (run_log ex_clone ex_unstable_optimizer k)
                        \<and> j' < length (run_log ex_clone ex_unstable_optimizer 0)
                        \<and> EnvEvent_eq (run_log ex_clone ex_unstable_optimizer k ! j')
                             (run_log ex_clone ex_unstable_optimizer 0 ! j')"
      by (elim exE conjE) blast
    have k1: "k = Suc 0" using k by simp
    have "j = 0"
    proof (rule ccontr)
      assume "j \<noteq> 0"
      then have "0 < j" by simp
      with before have "EnvEvent_eq (run_log ex_clone ex_unstable_optimizer k ! 0)
                             (run_log ex_clone ex_unstable_optimizer 0 ! 0)" by blast
      then show False by (simp add: k1 ex_unstable_logs ex_events_differ)
    qed
    with res show ?thesis
      by (simp add: k1 ex_unstable_logs ex_str_event_def ex_prune_def ex_import_def EnvEvent_def)
  qed
  have stable: "\<forall>rows. (Maker_init ex_clone ex_stable_optimizer ex_str_event False 2
                 :: (nat, nat) error + nat env) \<noteq> Inl (StochasticOrder rows)"
  proof -
    have logs: "\<forall>i. 0 < i \<and> i < nat 2 \<longrightarrow>
         event_list_eq (run_log ex_clone ex_stable_optimizer i) (run_log ex_clone ex_stable_optimizer 0)"
      by (simp add: ex_stable_logs ex_events_same)
    from Maker_init_StochasticOrder[OF ex_clone_accepted, of ex_stable_optimizer ex_str_event,
        THEN conjunct2, THEN conjunct1, THEN mp, OF logs]
    show ?thesis by (rule conjunct1)
  qed
  have "inplace_accepted False (ex_clone 0)" "inplace_accepted False (ex_clone 1)"
    using ex_clone_accepted by simp_all
  with ne first stable show ?thesis by blast
qed

text \<open>
  Claim C3, as amended. When all the runs leave equal event logs, the \<^verbatim>\<open>Env\<close> that the maker
  keeps is the one of the last run, \<open>stability_patience - 1\<close>.
\<close>

theorem Maker_init_keeps_last_env:
  assumes "\<forall>i < nat n. inplace_accepted acc (clone i)" and "0 < n"
    and "\<forall>i. 0 < i \<and> i < nat n \<longrightarrow>
           event_list_eq (run_log clone optimizer i) (run_log clone optimizer 0)"
  shows "(Maker_init clone optimizer str acc n :: ('ty, 'a) error + 'ty env) =
           Inr (optimizer (nat n - 1) (clone (nat n - 1)))"
proof -
  from assms(2) have "0 < nat n" by simp
  from Maker_init_stable[OF assms(1) this assms(3)] show ?thesis .
qed

text \<open>Witness for C3 as amended: with a patience of 2, the \<^verbatim>\<open>Env\<close> of run 1 is kept.\<close>

theorem Maker_init_keeps_last_env_witness:
  "inplace_accepted False (ex_clone 0) \<and> inplace_accepted False (ex_clone 1) \<and> (0::int) < 2
   \<and> event_list_eq (run_log ex_clone ex_stable_optimizer 1) (run_log ex_clone ex_stable_optimizer 0)
   \<and> (Maker_init ex_clone ex_stable_optimizer ex_str_event False 2 :: (nat, nat) error + nat env) =
        Inr (ex_stable_optimizer 1 (ex_clone 1))"
proof -
  have logs: "\<forall>i. 0 < i \<and> i < nat 2 \<longrightarrow>
         event_list_eq (run_log ex_clone ex_stable_optimizer i) (run_log ex_clone ex_stable_optimizer 0)"
    by (simp add: ex_stable_logs ex_events_same)
  have pos: "(0::int) < 2" by simp
  from Maker_init_keeps_last_env[OF ex_clone_accepted pos logs, of ex_str_event]
  have "(Maker_init ex_clone ex_stable_optimizer ex_str_event False 2 :: (nat, nat) error + nat env) =
        Inr (ex_stable_optimizer 1 (ex_clone 1))"
    by simp
  moreover have "inplace_accepted False (ex_clone 0)" "inplace_accepted False (ex_clone 1)"
    using ex_clone_accepted by simp_all
  moreover have "event_list_eq (run_log ex_clone ex_stable_optimizer 1)
                   (run_log ex_clone ex_stable_optimizer 0)"
    by (simp add: ex_stable_logs ex_events_same)
  ultimately show ?thesis using pos by blast
qed

text \<open>
  Counterexample to C3 as stated: the two runs leave equal logs, and the \<^verbatim>\<open>Env\<close> that is kept
  is not the one of the first run.
\<close>

theorem Maker_init_keeps_first_env_counterexample:
  "event_list_eq (run_log ex_clone ex_stable_optimizer 1) (run_log ex_clone ex_stable_optimizer 0)
   \<and> (Maker_init ex_clone ex_stable_optimizer ex_str_event False 2 :: (nat, nat) error + nat env)
       \<noteq> Inr (ex_stable_optimizer 0 (ex_clone 0))"
proof -
  have logs: "\<forall>i. 0 < i \<and> i < nat 2 \<longrightarrow>
         event_list_eq (run_log ex_clone ex_stable_optimizer i) (run_log ex_clone ex_stable_optimizer 0)"
    by (simp add: ex_stable_logs ex_events_same)
  have pos: "0 < nat 2" by simp
  have "(Maker_init ex_clone ex_stable_optimizer ex_str_event False 2 :: (nat, nat) error + nat env) =
        Inr (ex_stable_optimizer (nat 2 - 1) (ex_clone (nat 2 - 1)))"
    by (rule Maker_init_stable[OF ex_clone_accepted pos logs])
  then show ?thesis
    by (simp add: ex_stable_logs ex_events_same ex_stable_optimizer_def ex_clone_def)
qed

section \<open>The classes of the reported errors\<close>

lemma issubclass_inv: "issubclass c d \<Longrightarrow> d = c \<or> (\<exists>b. base c = Some b \<and> issubclass b d)"
  by (erule issubclass.cases) auto

lemma issubclass_Exception: "issubclass Cls_Exception d \<Longrightarrow> d = Cls_Exception"
  using issubclass_inv[of Cls_Exception d] by simp

lemma issubclass_StandardError:
  "issubclass Cls_StandardError d \<Longrightarrow> d = Cls_StandardError \<or> d = Cls_Exception"
  using issubclass_inv[of Cls_StandardError d] issubclass_Exception[of d] by auto

lemma ValueError_not_DebugModeError: "\<not> issubclass Cls_ValueError Cls_DebugModeError"
  using issubclass_inv[of Cls_ValueError Cls_DebugModeError]
    issubclass_StandardError[of Cls_DebugModeError] by auto

lemma TypeError_not_DebugModeError: "\<not> issubclass Cls_TypeError Cls_DebugModeError"
  using issubclass_inv[of Cls_TypeError Cls_DebugModeError]
    issubclass_StandardError[of Cls_DebugModeError] by auto

lemma issubclass_direct: "base c = Some d \<Longrightarrow> issubclass c d"
  by (rule issubclass_base[OF _ issubclass_refl])

lemma optcheck_env_error:
  "optcheck_env new_env accept_inplace = Inl e \<Longrightarrow>
   \<exists>node. e = PyTypeError ''Graph must not contain inplace operations'' node
          \<and> node \<in> set (env_nodes new_env) \<and> destroy_map (op node) \<noteq> [] \<and> \<not> accept_inplace"
  by (auto simp: optcheck_env_def find_Some_iff split: if_splits option.splits)

text \<open>
  Claim C9, as amended. The seven error classes that the module declares derive from
  \<^verbatim>\<open>DebugModeError\<close>. The error raised when both the compiled-code check and the reference-code
  check are disabled is a \<^verbatim>\<open>ValueError\<close>, and the error raised for an in-place operation in a
  graph that must not have one is a \<^verbatim>\<open>TypeError\<close>; neither is an instance of \<^verbatim>\<open>DebugModeError\<close>.
\<close>

theorem error_classes:
  "issubclass Cls_BadCLinkerOutput Cls_DebugModeError
   \<and> issubclass Cls_BadOptimization Cls_DebugModeError
   \<and> issubclass Cls_BadDestroyMap Cls_DebugModeError
   \<and> issubclass Cls_BadViewMap Cls_DebugModeError
   \<and> issubclass Cls_StochasticOrder Cls_DebugModeError
   \<and> issubclass Cls_FloatError Cls_DebugModeError
   \<and> issubclass Cls_InvalidValueError Cls_DebugModeError
   \<and> (\<forall>e :: ('ty, 'a) error. DebugMode_init optimizer patience False False = Inl e \<longrightarrow>
         isinstance e Cls_ValueError \<and> \<not> isinstance e Cls_DebugModeError)
   \<and> (\<exists>e :: ('ty, 'a) error. DebugMode_init optimizer patience False False = Inl e)
   \<and> (\<forall>e :: ('ty, 'a) error. optcheck_env (new_env :: 'ty env) accept_inplace = Inl e \<longrightarrow>
         isinstance e Cls_TypeError \<and> \<not> isinstance e Cls_DebugModeError)"
proof (intro conjI allI impI)
  fix e :: "('ty, 'a) error"
  assume "DebugMode_init optimizer patience False False = Inl e"
  then have e: "e = PyValueError ''DebugMode has to check at least one of c and py code''"
    by (simp add: DebugMode_init_def)
  show "isinstance e Cls_ValueError"
    by (simp add: e isinstance_def issubclass_refl)
  show "\<not> isinstance e Cls_DebugModeError"
    by (simp add: e isinstance_def ValueError_not_DebugModeError)
next
  fix e :: "('ty, 'a) error"
  assume "optcheck_env new_env accept_inplace = Inl e"
  from optcheck_env_error[OF this] obtain node
    where e: "e = PyTypeError ''Graph must not contain inplace operations'' node" by blast
  show "isinstance e Cls_TypeError"
    by (simp add: e isinstance_def issubclass_refl)
  show "\<not> isinstance e Cls_DebugModeError"
    by (simp add: e isinstance_def TypeError_not_DebugModeError)
next
  show "\<exists>e :: ('ty, 'a) error. DebugMode_init optimizer patience False False = Inl e"
    by (simp add: DebugMode_init_def)
qed (simp_all add: issubclass_direct)

text \<open>
  Witness for C9 as amended: the mode with both checks disabled, and a graph with the
  in-place operator \<^verbatim>\<open>neg_inplace\<close>.
\<close>

theorem error_classes_witness:
  "(DebugMode_init ''fast_run'' 10 False False :: (nat, nat) error + mode)
     = Inl (PyValueError ''DebugMode has to check at least one of c and py code'')
   \<and> isinstance (PyValueError ''DebugMode has to check at least one of c and py code''
                  :: (nat, nat) error) Cls_ValueError
   \<and> \<not> isinstance (PyValueError ''DebugMode has to check at least one of c and py code''
                  :: (nat, nat) error) Cls_DebugModeError
   \<and> (optcheck_env ex_inplace_env False :: (nat, nat) error + nat env)
     = Inl (PyTypeError ''Graph must not contain inplace operations'' ex_inplace_node)
   \<and> isinstance (PyTypeError ''Graph must not contain inplace operations'' ex_inplace_node
                  :: (nat, nat) error) Cls_TypeError
   \<and> \<not> isinstance (PyTypeError ''Graph must not contain inplace operations'' ex_inplace_node
                  :: (nat, nat) error) Cls_DebugModeError"
proof -
  have v: "(DebugMode_init ''fast_run'' 10 False False :: (nat, nat) error + mode)
     = Inl (PyValueError ''DebugMode has to check at least one of c and py code'')"
    by (simp add: DebugMode_init_def)
  have t: "(optcheck_env ex_inplace_env False :: (nat, nat) error + nat env)
     = Inl (PyTypeError ''Graph must not contain inplace operations'' ex_inplace_node)"
    by (simp add: optcheck_env_def ex_inplace_env_def ex_inplace_node_def ex_neg_inplace_def)
  note T = error_classes[of "''fast_run''" 10 ex_inplace_env False]
  from T[THEN conjunct2, THEN conjunct2, THEN conjunct2, THEN conjunct2, THEN conjunct2,
         THEN conjunct2, THEN conjunct2, THEN conjunct1, THEN spec, THEN mp, OF v]
       T[THEN conjunct2, THEN conjunct2, THEN conjunct2, THEN conjunct2, THEN conjunct2,
         THEN conjunct2, THEN conjunct2, THEN conjunct2, THEN conjunct2, THEN spec, THEN mp, OF t]
       v t
  show ?thesis by blast
qed

text \<open>
  Counterexample to C9 as stated: the configuration error for two disabled checks is not an
  instance of \<^verbatim>\<open>DebugModeError\<close>.
\<close>

theorem config_error_counterexample:
  "(DebugMode_init ''fast_run'' 10 False False :: (nat, nat) error + mode)
     = Inl (PyValueError ''DebugMode has to check at least one of c and py code'')
   \<and> \<not> isinstance (PyValueError ''DebugMode has to check at least one of c and py code''
                  :: (nat, nat) error) Cls_DebugModeError"
  by (simp add: DebugMode_init_def isinstance_def ValueError_not_DebugModeError)

section \<open>Properties of the bad-optimization check\<close>

lemma check_reasons_sound:
  "check_reasons c rv new_r chain = Some (BadOptimization r nr ov nv rsn og ng) \<Longrightarrow>
   nr = new_r \<and> (rsn, r, og, ng) \<in> set chain \<and> rv r = Some ov \<and> rv new_r = Some nv
   \<and> \<not> values_eq_approx c (vtype r) ov nv \<and> vtype r = vtype new_r"
proof (induction chain)
  case Nil
  then show ?case by simp
next
  case (Cons ent chain)
  obtain rsn' r' og' ng' where ent: "ent = (rsn', r', og', ng')" by (cases ent) auto
  from Cons.prems show ?case
    unfolding ent
    by (auto split: option.splits if_splits dest: Cons.IH)
qed

lemma check_outputs_sound:
  "check_outputs c rsns rv outs = Some (BadOptimization r new_r ov nv rsn og ng) \<Longrightarrow>
   new_r \<in> set outs \<and> (\<exists>chain. rsns new_r = Some chain \<and> (rsn, r, og, ng) \<in> set chain)
   \<and> rv r = Some ov \<and> rv new_r = Some nv
   \<and> \<not> values_eq_approx c (vtype r) ov nv \<and> vtype r = vtype new_r"
proof (induction outs)
  case Nil
  then show ?case by simp
next
  case (Cons out outs)
  from Cons.prems show ?case
    by (auto split: option.splits dest: Cons.IH check_reasons_sound)
qed

lemma find_bad_optimizations0_sound:
  "find_bad_optimizations0 c order rsns rv = Some (BadOptimization r new_r ov nv rsn og ng) \<Longrightarrow>
   (\<exists>node \<in> set order. new_r \<in> set (outputs node))
   \<and> (\<exists>chain. rsns new_r = Some chain \<and> (rsn, r, og, ng) \<in> set chain)
   \<and> rv r = Some ov \<and> rv new_r = Some nv
   \<and> \<not> values_eq_approx c (vtype r) ov nv \<and> vtype r = vtype new_r"
proof (induction order)
  case Nil
  then show ?case by simp
next
  case (Cons node order)
  from Cons.prems show ?case
    by (auto split: option.splits dest: Cons.IH check_outputs_sound)
qed

lemma check_reasons_complete:
  assumes "chain_checkable rv new_r chain"
  shows "(if \<forall>ent \<in> set chain. entry_agrees c rv new_r ent
          then check_reasons c rv new_r chain = None
          else \<exists>r ov nv rsn og ng.
                 check_reasons c rv new_r chain = Some (BadOptimization r new_r ov nv rsn og ng))"
  using assms
proof (induction chain)
  case Nil
  then show ?case by simp
next
  case (Cons ent chain)
  obtain rsn' r' og' ng' where ent: "ent = (rsn', r', og', ng')" by (cases ent) auto
  have rest: "chain_checkable rv new_r chain"
    using Cons.prems by (simp add: chain_checkable_def)
  from Cons.prems obtain nv ov where vals: "rv new_r = Some nv" "rv r' = Some ov"
    and ty: "vtype r' = vtype new_r"
    by (auto simp: chain_checkable_def ent)
  show ?case
  proof (cases "values_eq_approx c (vtype r') ov nv")
    case True
    then have "entry_agrees c rv new_r ent" by (simp add: entry_agrees_def ent vals)
    moreover have "check_reasons c rv new_r (ent # chain) = check_reasons c rv new_r chain"
      using True by (simp add: ent vals ty)
    ultimately show ?thesis using Cons.IH[OF rest] by simp
  next
    case False
    then have "\<not> entry_agrees c rv new_r ent" by (simp add: entry_agrees_def ent vals)
    moreover have "check_reasons c rv new_r (ent # chain)
                    = Some (BadOptimization r' new_r ov nv rsn' og' ng')"
      using False by (simp add: ent vals ty)
    ultimately show ?thesis by simp
  qed
qed


lemma check_outputs_complete:
  assumes "\<forall>new_r \<in> set outs. \<exists>chain. rsns new_r = Some chain \<and> chain_checkable rv new_r chain"
  shows "(if \<forall>new_r \<in> set outs. \<forall>ent \<in> set (the (rsns new_r)). entry_agrees c rv new_r ent
          then check_outputs c rsns rv outs = None
          else \<exists>r new_r ov nv rsn og ng.
                 check_outputs c rsns rv outs = Some (BadOptimization r new_r ov nv rsn og ng))"
  using assms
proof (induction outs)
  case Nil
  then show ?case by simp
next
  case (Cons out outs)
  from Cons.prems obtain chain where chain: "rsns out = Some chain" "chain_checkable rv out chain"
    by auto
  have rest: "\<forall>new_r \<in> set outs. \<exists>chain. rsns new_r = Some chain \<and> chain_checkable rv new_r chain"
    using Cons.prems by simp
  show ?case
  proof (cases "\<forall>ent \<in> set chain. entry_agrees c rv out ent")
    case True
    with check_reasons_complete[OF chain(2), of c]
    have "check_reasons c rv out chain = None" by simp
    then have "check_outputs c rsns rv (out # outs) = check_outputs c rsns rv outs"
      by (simp add: chain)
    with True Cons.IH[OF rest] show ?thesis by (simp add: chain)
  next
    case False
    with check_reasons_complete[OF chain(2), of c]
    obtain r ov nv rsn og ng
      where "check_reasons c rv out chain = Some (BadOptimization r out ov nv rsn og ng)"
      by auto
    then have "check_outputs c rsns rv (out # outs) = Some (BadOptimization r out ov nv rsn og ng)"
      by (simp add: chain)
    with False show ?thesis by (auto simp: chain)
  qed
qed

lemma find_bad_optimizations0_complete:
  assumes "\<forall>node \<in> set order. \<forall>new_r \<in> set (outputs node).
             \<exists>chain. rsns new_r = Some chain \<and> chain_checkable rv new_r chain"
  shows "(if \<forall>node \<in> set order. \<forall>new_r \<in> set (outputs node).
               \<forall>ent \<in> set (the (rsns new_r)). entry_agrees c rv new_r ent
          then find_bad_optimizations0 c order rsns rv = None
          else \<exists>r new_r ov nv rsn og ng.
                 find_bad_optimizations0 c order rsns rv
                   = Some (BadOptimization r new_r ov nv rsn og ng))"
  using assms
proof (induction order)
  case Nil
  then show ?case by simp
next
  case (Cons node order)
  have here: "\<forall>new_r \<in> set (outputs node).
                \<exists>chain. rsns new_r = Some chain \<and> chain_checkable rv new_r chain"
    using Cons.prems by simp
  have rest: "\<forall>node \<in> set order. \<forall>new_r \<in> set (outputs node).
                \<exists>chain. rsns new_r = Some chain \<and> chain_checkable rv new_r chain"
    using Cons.prems by simp
  show ?case
  proof (cases "\<forall>new_r \<in> set (outputs node). \<forall>ent \<in> set (the (rsns new_r)). entry_agrees c rv new_r ent")
    case True
    with check_outputs_complete[OF here, of c]
    have "check_outputs c rsns rv (outputs node) = None" by simp
    then have "find_bad_optimizations0 c (node # order) rsns rv
                 = find_bad_optimizations0 c order rsns rv"
      by simp
    with True Cons.IH[OF rest] show ?thesis by simp
  next
    case False
    with check_outputs_complete[OF here, of c]
    obtain r new_r ov nv rsn og ng
      where "check_outputs c rsns rv (outputs node) = Some (BadOptimization r new_r ov nv rsn og ng)"
      by auto
    then have "find_bad_optimizations0 c (node # order) rsns rv
                 = Some (BadOptimization r new_r ov nv rsn og ng)"
      by simp
    with False show ?thesis by auto
  qed
qed

lemma f_runs_check_after_order:
  assumes "f_init c nr sm = (None, s0)" and "eval_order c A jobs s0 = (None, s1)"
  shows "fst (f c A rsns nr jobs sm) =
           (case find_bad_optimizations c (map (\<lambda>job. snd (snd job)) jobs) rsns (r_vals s1) of
              Some e \<Rightarrow> Some e
            | None \<Rightarrow> fst (assert_storage_empty s1))"
  by (simp add: f_def and_then_def assms run_find_bad_optimizations_def split: option.splits)

text \<open>
  Claim C1, as amended. After the nodes of the order have been evaluated, \<^verbatim>\<open>f\<close> runs the
  pairwise check on the order, the reason chains and \<^verbatim>\<open>r_vals\<close>. Provided every variable of
  the chains has a value and every replaced variable has the type of the variable that
  replaced it (the assertion of the check), the check raises \<^verbatim>\<open>BadOptimization\<close> when some
  entry of some reason chain fails \<^verbatim>\<open>values_eq_approx\<close>, and returns normally when every entry
  passes. Whenever \<^verbatim>\<open>BadOptimization\<close> is raised, it carries \<open>old_r\<close>, \<open>new_r\<close>, their two values
  in \<^verbatim>\<open>r_vals\<close>, the reason and the two graph strings of an entry of the chain of \<open>new_r\<close>, an
  output of the order, whose values fail \<^verbatim>\<open>values_eq_approx\<close>.
\<close>

theorem find_bad_optimizations_pairwise:
  assumes "\<forall>node \<in> set order. \<forall>new_r \<in> set (outputs node).
             \<exists>chain. rsns new_r = Some chain \<and> chain_checkable rv new_r chain"
  shows "((\<exists>node \<in> set order. \<exists>new_r \<in> set (outputs node).
             \<exists>ent \<in> set (the (rsns new_r)). \<not> entry_agrees c rv new_r ent) \<longrightarrow>
            (\<exists>r new_r ov nv rsn og ng.
               find_bad_optimizations c order rsns rv
                 = Some (BadOptimization r new_r ov nv rsn og ng)))
       \<and> ((\<forall>node \<in> set order. \<forall>new_r \<in> set (outputs node).
             \<forall>ent \<in> set (the (rsns new_r)). entry_agrees c rv new_r ent) \<longrightarrow>
            find_bad_optimizations c order rsns rv = None)
       \<and> (\<forall>r new_r ov nv rsn og ng.
            find_bad_optimizations c order rsns rv
              = Some (BadOptimization r new_r ov nv rsn og ng) \<longrightarrow>
            (\<exists>node \<in> set order. new_r \<in> set (outputs node))
            \<and> (\<exists>chain. rsns new_r = Some chain \<and> (rsn, r, og, ng) \<in> set chain)
            \<and> rv r = Some ov \<and> rv new_r = Some nv
            \<and> \<not> values_eq_approx c (vtype r) ov nv \<and> vtype r = vtype new_r)
       \<and> (\<forall>A nr jobs sm s0 s1.
            f_init c nr sm = (None, s0) \<and> eval_order c A jobs s0 = (None, s1) \<longrightarrow>
            fst (f c A rsns nr jobs sm) =
              (case find_bad_optimizations c (map (\<lambda>job. snd (snd job)) jobs) rsns (r_vals s1) of
                 Some e \<Rightarrow> Some e
               | None \<Rightarrow> fst (assert_storage_empty s1)))"
proof (intro conjI allI impI)
  assume "\<exists>node \<in> set order. \<exists>new_r \<in> set (outputs node).
             \<exists>ent \<in> set (the (rsns new_r)). \<not> entry_agrees c rv new_r ent"
  with find_bad_optimizations0_complete[OF assms, of c]
  show "\<exists>r new_r ov nv rsn og ng.
               find_bad_optimizations c order rsns rv
                 = Some (BadOptimization r new_r ov nv rsn og ng)"
    unfolding find_bad_optimizations_def by (simp split: if_splits)
next
  assume "\<forall>node \<in> set order. \<forall>new_r \<in> set (outputs node).
             \<forall>ent \<in> set (the (rsns new_r)). entry_agrees c rv new_r ent"
  with find_bad_optimizations0_complete[OF assms, of c]
  show "find_bad_optimizations c order rsns rv = None"
    unfolding find_bad_optimizations_def by (simp split: if_splits)
next
  fix r new_r ov nv rsn og ng
  assume "find_bad_optimizations c order rsns rv = Some (BadOptimization r new_r ov nv rsn og ng)"
  then have bad: "find_bad_optimizations0 c order rsns rv
                    = Some (BadOptimization r new_r ov nv rsn og ng)"
    by (simp add: find_bad_optimizations_def)
  note sound = find_bad_optimizations0_sound[OF bad]
  show "\<exists>node \<in> set order. new_r \<in> set (outputs node)" using sound by blast
  show "\<exists>chain. rsns new_r = Some chain \<and> (rsn, r, og, ng) \<in> set chain" using sound by blast
  show "rv r = Some ov" using sound by blast
  show "rv new_r = Some nv" using sound by blast
  show "\<not> values_eq_approx c (vtype r) ov nv" using sound by blast
  show "vtype r = vtype new_r" using sound by blast
next
  fix A nr jobs sm s0 s1
  assume "f_init c nr sm = (None, s0) \<and> eval_order c A jobs s0 = (None, s1)"
  then show "fst (f c A rsns nr jobs sm) =
              (case find_bad_optimizations c (map (\<lambda>job. snd (snd job)) jobs) rsns (r_vals s1) of
                 Some e \<Rightarrow> Some e
               | None \<Rightarrow> fst (assert_storage_empty s1))"
    using f_runs_check_after_order by blast
qed

lemma ex_vars_distinct: "ex_x \<noteq> ex_z" "ex_z \<noteq> ex_x" "ex_w \<noteq> ex_z" "ex_z \<noteq> ex_w"
  by (simp_all add: ex_x_def ex_z_def ex_w_def)

lemma ex_chain_checkable:
  "\<forall>node \<in> set [ex_node]. \<forall>new_r \<in> set (outputs node).
      \<exists>chain. ex_reasons new_r = Some chain \<and> chain_checkable ex_r_vals new_r chain"
  by (simp add: ex_node_def ex_reasons_def ex_r_vals_def chain_checkable_def ex_vars_distinct
      ex_x_def ex_z_def)

lemma ex_entry_disagrees:
  "\<not> entry_agrees ex_contract ex_r_vals ex_z (Some ''opt'', ex_x, ''old graph'', ''new graph'')"
  by (simp add: entry_agrees_def ex_contract_def ex_r_vals_def ex_vars_distinct ex_values_eq_approx_def)

text \<open>
  Witness for C1 as amended: \<open>z\<close> replaced \<open>x\<close>, of the same type, and their values differ.
\<close>

theorem find_bad_optimizations_pairwise_witness:
  "ex_reasons ex_z = Some [(Some ''opt'', ex_x, ''old graph'', ''new graph'')]
   \<and> chain_checkable ex_r_vals ex_z [(Some ''opt'', ex_x, ''old graph'', ''new graph'')]
   \<and> \<not> entry_agrees ex_contract ex_r_vals ex_z (Some ''opt'', ex_x, ''old graph'', ''new graph'')
   \<and> find_bad_optimizations ex_contract [ex_node] ex_reasons ex_r_vals
       = Some (BadOptimization ex_x ex_z (PyObj (0, 1)) (PyObj (1, 2)) (Some ''opt'')
                 ''old graph'' ''new graph'')"
proof -
  note T = find_bad_optimizations_pairwise[OF ex_chain_checkable, of ex_contract]
  have chain: "ex_reasons ex_z = Some [(Some ''opt'', ex_x, ''old graph'', ''new graph'')]"
    by (simp add: ex_reasons_def)
  have ex: "\<exists>node \<in> set [ex_node]. \<exists>new_r \<in> set (outputs node).
             \<exists>ent \<in> set (the (ex_reasons new_r)). \<not> entry_agrees ex_contract ex_r_vals new_r ent"
    using ex_entry_disagrees by (simp add: ex_node_def chain)
  from T[THEN conjunct1, THEN mp, OF ex] obtain r new_r ov nv rsn og ng
    where bad: "find_bad_optimizations ex_contract [ex_node] ex_reasons ex_r_vals
                  = Some (BadOptimization r new_r ov nv rsn og ng)"
    by blast
  from T[THEN conjunct2, THEN conjunct2, THEN conjunct1, THEN spec, THEN spec, THEN spec,
         THEN spec, THEN spec, THEN spec, THEN spec, THEN mp, OF bad]
  have new_r: "new_r = ex_z"
    and ent: "\<exists>chain. ex_reasons new_r = Some chain \<and> (rsn, r, og, ng) \<in> set chain"
    and vals: "ex_r_vals r = Some ov" "ex_r_vals new_r = Some nv"
    by (auto simp add: ex_node_def)
  from ent have r: "r = ex_x" "rsn = Some ''opt''" "og = ''old graph''" "ng = ''new graph''"
    by (simp_all add: new_r chain)
  from vals have "ov = PyObj (0, 1)" "nv = PyObj (1, 2)"
    by (simp_all add: new_r r ex_r_vals_def ex_vars_distinct)
  with bad new_r r chain ex_entry_disagrees ex_chain_checkable show ?thesis
    by (simp add: ex_node_def)
qed

text \<open>
  Counterexample to C1 as stated: \<open>z\<close> replaced \<open>w\<close>, their values fail \<^verbatim>\<open>values_eq_approx\<close>,
  and their types differ: the check raises \<^verbatim>\<open>AssertionError\<close>, not \<^verbatim>\<open>BadOptimization\<close>.
\<close>

theorem find_bad_optimizations_type_counterexample:
  "ex_mistyped_reasons ex_z = Some [(Some ''opt'', ex_w, ''old graph'', ''new graph'')]
   \<and> ex_mistyped_r_vals ex_w = Some (PyObj (0, 1)) \<and> ex_mistyped_r_vals ex_z = Some (PyObj (1, 2))
   \<and> \<not> values_eq_approx ex_contract (vtype ex_w) (PyObj (0, 1)) (PyObj (1, 2))
   \<and> find_bad_optimizations ex_contract [ex_node] ex_mistyped_reasons ex_mistyped_r_vals
       = Some AssertionError"
  by (simp add: find_bad_optimizations_def ex_node_def ex_mistyped_reasons_def
      ex_mistyped_r_vals_def ex_vars_distinct ex_contract_def ex_values_eq_approx_def
      ex_w_def ex_z_def)

section \<open>Properties of the initialization of the evaluation\<close>

lemma map_fst_map_entry: "map fst (AList.map_entry k g xs) = map fst xs"
  by (induction xs) auto

lemma map_fst_clear_cells: "map fst (clear_cells rs sm) = map fst sm"
  unfolding clear_cells_def
  by (induction rs arbitrary: sm) (simp_all add: map_fst_map_entry)

lemma map_of_map_entry_None:
  "map_of sm r = Some PyNone \<Longrightarrow> map_of (AList.map_entry k (\<lambda>v. PyNone) sm) r = Some PyNone"
  by (auto simp add: map_of_map_entry)

lemma map_of_clear_cells_None:
  "map_of sm r = Some PyNone \<Longrightarrow> map_of (clear_cells rs sm) r = Some PyNone"
  unfolding clear_cells_def
proof (induction rs arbitrary: sm)
  case Nil
  then show ?case by simp
next
  case (Cons k rs)
  from Cons.IH[OF map_of_map_entry_None[OF Cons.prems, of k]] show ?case by simp
qed

lemma f_init_loop_r_vals:
  "f_init_loop c rs s = (e, s') \<Longrightarrow>
   dom (r_vals s') \<subseteq> dom (r_vals s) \<union> {r \<in> set rs. owner r = None}"
proof (induction rs arbitrary: s)
  case Nil
  then show ?case by simp
next
  case (Cons r rs)
  show ?case
  proof (cases "owner r = None")
    case False
    with Cons.prems have "f_init_loop c rs s = (e, s')" by simp
    from Cons.IH[OF this] show ?thesis by auto
  next
    case True
    show ?thesis
    proof (cases "map_of (storage_map s) r")
      case None
      with True Cons.prems show ?thesis by auto
    next
      case (Some cell)
      show ?thesis
      proof (cases "cell = PyNone \<or> \<not> is_valid_value c (vtype r) cell")
        case True
        with \<open>owner r = None\<close> Some Cons.prems show ?thesis by (auto split: if_splits)
      next
        case False
        with \<open>owner r = None\<close> Some Cons.prems
        have "f_init_loop c rs (s\<lparr>r_vals := (r_vals s)(r \<mapsto> cell),
                       storage_map := AList.update r PyNone (storage_map s)\<rparr>) = (e, s')"
          by simp
        from Cons.IH[OF this]
        have "dom (r_vals s') \<subseteq> insert r (dom (r_vals s)) \<union> {r \<in> set rs. owner r = None}"
          by (force simp: dom_def subset_iff split: if_splits)
        with \<open>owner r = None\<close> show ?thesis by (simp add: subset_iff) blast
      qed
    qed
  qed
qed

lemma f_init_loop_raises:
  assumes "distinct rs" and "\<forall>r \<in> set rs. map_of (storage_map s) r \<noteq> None"
    and "\<exists>r \<in> set rs. owner r = None \<and> map_of (storage_map s) r = Some PyNone"
  shows "\<exists>e s'. f_init_loop c rs s = (Some e, s')
           \<and> ((\<exists>r0 \<in> set rs. e = PyException ''Missing input'' (Some r0) \<and> owner r0 = None
                  \<and> map_of (storage_map s) r0 = Some PyNone)
              \<or> (\<exists>r0 \<in> set rs. \<exists>v. e = InvalidValueError r0 v \<and> owner r0 = None
                  \<and> map_of (storage_map s) r0 = Some v \<and> v \<noteq> PyNone
                  \<and> \<not> is_valid_value c (vtype r0) v))"
  using assms
proof (induction rs arbitrary: s)
  case Nil
  then show ?case by simp
next
  case (Cons r rs)
  from Cons.prems(2) obtain cell where cell: "map_of (storage_map s) r = Some cell" by auto
  have dist: "distinct rs" "r \<notin> set rs" using Cons.prems(1) by auto
  show ?case
  proof (cases "owner r = None")
    case False
    have keys: "\<forall>r \<in> set rs. map_of (storage_map s) r \<noteq> None" using Cons.prems(2) by simp
    have missing: "\<exists>r \<in> set rs. owner r = None \<and> map_of (storage_map s) r = Some PyNone"
      using Cons.prems(3) False by auto
    from Cons.IH[OF dist(1) keys missing] False show ?thesis by auto
  next
    case True
    show ?thesis
    proof (cases "cell = PyNone")
      case True
      with \<open>owner r = None\<close> cell show ?thesis by auto
    next
      case notNone: False
      show ?thesis
      proof (cases "is_valid_value c (vtype r) cell")
        case False
        with notNone \<open>owner r = None\<close> cell show ?thesis by auto
      next
        case True
        let ?s = "s\<lparr>r_vals := (r_vals s)(r \<mapsto> cell),
                     storage_map := AList.update r PyNone (storage_map s)\<rparr>"
        have same: "\<forall>r' \<in> set rs. map_of (storage_map ?s) r' = map_of (storage_map s) r'"
          using dist(2) by (auto simp: update_conv')
        have keys: "\<forall>r \<in> set rs. map_of (storage_map ?s) r \<noteq> None"
          using Cons.prems(2) same by simp
        have missing: "\<exists>r \<in> set rs. owner r = None \<and> map_of (storage_map ?s) r = Some PyNone"
          using Cons.prems(3) cell notNone same by auto
        have step: "f_init_loop c (r # rs) s = f_init_loop c rs ?s"
          using True notNone \<open>owner r = None\<close> cell by simp
        from Cons.IH[OF dist(1) keys missing] obtain e s' where
          res: "f_init_loop c rs ?s = (Some e, s')"
          and shape: "(\<exists>r0 \<in> set rs. e = PyException ''Missing input'' (Some r0) \<and> owner r0 = None
                  \<and> map_of (storage_map ?s) r0 = Some PyNone)
              \<or> (\<exists>r0 \<in> set rs. \<exists>v. e = InvalidValueError r0 v \<and> owner r0 = None
                  \<and> map_of (storage_map ?s) r0 = Some v \<and> v \<noteq> PyNone
                  \<and> \<not> is_valid_value c (vtype r0) v)"
          by blast
        from shape same have "(\<exists>r0 \<in> set (r # rs). e = PyException ''Missing input'' (Some r0) \<and> owner r0 = None
                  \<and> map_of (storage_map s) r0 = Some PyNone)
              \<or> (\<exists>r0 \<in> set (r # rs). \<exists>v. e = InvalidValueError r0 v \<and> owner r0 = None
                  \<and> map_of (storage_map s) r0 = Some v \<and> v \<noteq> PyNone
                  \<and> \<not> is_valid_value c (vtype r0) v)"
          by (metis list.set_intros(2))
        with res step show ?thesis by simp
      qed
    qed
  qed
qed


text \<open>
  Claim C10, as amended. If the cell of a graph input holds \<^verbatim>\<open>None\<close> when the evaluation
  begins, \<^verbatim>\<open>f\<close> raises during the initial transfer, whatever the nodes and their thunks are:
  the outcome of \<^verbatim>\<open>f\<close> is the outcome of the initialization, and \<^verbatim>\<open>r_vals\<close> holds no output of
  a node at that moment. The exception is \<^verbatim>\<open>Exception('Missing input', r0)\<close> for an input \<open>r0\<close>
  whose cell holds \<^verbatim>\<open>None\<close>, or \<^verbatim>\<open>InvalidValueError\<close> for an input whose value is invalid;
  it is the former when every input that holds a value holds a valid one.
\<close>

theorem f_missing_input:
  assumes "distinct (map fst sm)" and "(r, PyNone) \<in> set sm" and "owner r = None"
  shows "\<exists>e s. f_init c nr sm = (Some e, s)
           \<and> (\<forall>A rsns jobs. f c A rsns nr jobs sm = (Some e, s))
           \<and> dom (r_vals s) \<subseteq> {v. owner v = None}
           \<and> ((\<exists>r0. e = PyException ''Missing input'' (Some r0) \<and> owner r0 = None
                    \<and> map_of (clear_cells nr sm) r0 = Some PyNone)
              \<or> (\<exists>r0 v. e = InvalidValueError r0 v \<and> owner r0 = None
                    \<and> map_of (clear_cells nr sm) r0 = Some v \<and> v \<noteq> PyNone
                    \<and> \<not> is_valid_value c (vtype r0) v))
           \<and> ((\<forall>r' v. owner r' = None \<and> map_of (clear_cells nr sm) r' = Some v \<and> v \<noteq> PyNone
                    \<longrightarrow> is_valid_value c (vtype r') v) \<longrightarrow>
                (\<exists>r0. e = PyException ''Missing input'' (Some r0) \<and> owner r0 = None
                    \<and> map_of (clear_cells nr sm) r0 = Some PyNone))"
proof -
  let ?sm = "clear_cells nr sm"
  let ?s0 = "\<lparr>storage_map = ?sm, r_vals = Map.empty, dr_vals = Map.empty\<rparr>"
  have cell: "map_of sm r = Some PyNone" using assms(1,2) by simp
  have dist: "distinct (map fst sm)" by (rule assms(1))
  have keys: "\<forall>r' \<in> set (map fst sm). map_of (storage_map ?s0) r' \<noteq> None"
  proof
    fix r' assume "r' \<in> set (map fst sm)"
    then have "r' \<in> fst ` set ?sm" using map_fst_clear_cells[of nr sm] by (metis set_map)
    then show "map_of (storage_map ?s0) r' \<noteq> None" by (simp add: map_of_eq_None_iff)
  qed
  have missing: "\<exists>r' \<in> set (map fst sm). owner r' = None \<and> map_of (storage_map ?s0) r' = Some PyNone"
    using assms(2,3) map_of_clear_cells_None[OF cell, of nr] by force
  from f_init_loop_raises[OF dist keys missing, of c] obtain e s
    where loop: "f_init_loop c (map fst sm) ?s0 = (Some e, s)"
      and shape: "(\<exists>r0 \<in> set (map fst sm). e = PyException ''Missing input'' (Some r0) \<and> owner r0 = None
                  \<and> map_of (storage_map ?s0) r0 = Some PyNone)
              \<or> (\<exists>r0 \<in> set (map fst sm). \<exists>v. e = InvalidValueError r0 v \<and> owner r0 = None
                  \<and> map_of (storage_map ?s0) r0 = Some v \<and> v \<noteq> PyNone
                  \<and> \<not> is_valid_value c (vtype r0) v)"
    by blast
  have init: "f_init c nr sm = (Some e, s)"
    by (simp add: f_init_def loop)
  have all: "\<forall>A rsns jobs. f c A rsns nr jobs sm = (Some e, s)"
    by (simp add: f_def init)
  have dom: "dom (r_vals s) \<subseteq> {v. owner v = None}"
    using f_init_loop_r_vals[OF loop] by auto
  have shape': "(\<exists>r0. e = PyException ''Missing input'' (Some r0) \<and> owner r0 = None
                    \<and> map_of ?sm r0 = Some PyNone)
              \<or> (\<exists>r0 v. e = InvalidValueError r0 v \<and> owner r0 = None
                    \<and> map_of ?sm r0 = Some v \<and> v \<noteq> PyNone
                    \<and> \<not> is_valid_value c (vtype r0) v)"
    using shape by auto
  have valid: "(\<forall>r' v. owner r' = None \<and> map_of ?sm r' = Some v \<and> v \<noteq> PyNone
                    \<longrightarrow> is_valid_value c (vtype r') v) \<longrightarrow>
                (\<exists>r0. e = PyException ''Missing input'' (Some r0) \<and> owner r0 = None
                    \<and> map_of ?sm r0 = Some PyNone)"
    using shape' by blast
  from init all dom shape' valid show ?thesis by blast
qed

lemma ex_inputs_distinct: "ex_x \<noteq> ex_z" "ex_z \<noteq> ex_x" "ex_w \<noteq> ex_z" "ex_z \<noteq> ex_w"
    "ex_w \<noteq> ex_x" "ex_x \<noteq> ex_w"
  by (simp_all add: ex_x_def ex_z_def ex_w_def)

text \<open>Witness for C10 as amended: the input \<open>x\<close> is missing.\<close>

theorem f_missing_input_witness:
  "distinct (map fst ex_missing_storage) \<and> (ex_x, PyNone) \<in> set ex_missing_storage
   \<and> owner ex_x = None
   \<and> fst (f ex_contract {} ex_reasons [] ex_jobs ex_missing_storage)
       = Some (PyException ''Missing input'' (Some ex_x))"
proof -
  have d: "distinct (map fst ex_missing_storage)"
    by (simp add: ex_missing_storage_def ex_inputs_distinct)
  have m: "(ex_x, PyNone) \<in> set ex_missing_storage" by (simp add: ex_missing_storage_def)
  have ow: "owner ex_x = None" by (simp add: ex_x_def)
  from f_missing_input[OF d m ow, of ex_contract "[]"] obtain e s
    where run: "\<forall>A rsns jobs. f ex_contract A rsns [] jobs ex_missing_storage = (Some e, s)"
      and shape: "(\<exists>r0. e = PyException ''Missing input'' (Some r0) \<and> owner r0 = None
                    \<and> map_of (clear_cells [] ex_missing_storage) r0 = Some PyNone)
              \<or> (\<exists>r0 v. e = InvalidValueError r0 v \<and> owner r0 = None
                    \<and> map_of (clear_cells [] ex_missing_storage) r0 = Some v \<and> v \<noteq> PyNone
                    \<and> \<not> is_valid_value ex_contract (vtype r0) v)"
    by blast
  have cells: "map_of (clear_cells [] ex_missing_storage) r0 = Some v \<Longrightarrow>
               v = PyNone \<and> (r0 = ex_x \<or> r0 = ex_z)" for r0 v
    by (auto simp: clear_cells_def ex_missing_storage_def split: if_splits)
  have "owner ex_z \<noteq> None" by (simp add: ex_z_def)
  with shape cells have "e = PyException ''Missing input'' (Some ex_x)" by metis
  with run d m ow show ?thesis by simp
qed

text \<open>
  Counterexample to C10 as stated: the cell of the input \<open>x\<close> holds \<^verbatim>\<open>None\<close>, but the input
  \<open>w\<close>, visited before it, holds an invalid value, and the exception is \<^verbatim>\<open>InvalidValueError\<close>.
\<close>

theorem f_missing_input_counterexample:
  "map_of ex_invalid_storage ex_x = Some PyNone \<and> owner ex_x = None
   \<and> fst (f ex_contract {} ex_reasons [] ex_jobs ex_invalid_storage)
       = Some (InvalidValueError ex_w (PyObj (0, - 1)))"
  by (simp add: f_def f_init_def clear_cells_def ex_invalid_storage_def ex_inputs_distinct
      ex_x_def ex_w_def ex_contract_def ex_is_valid_value_def)

section \<open>Properties of the run of the compiled thunk\<close>

lemma check_inputs_loop_r_vals:
  "check_inputs_loop c node destroyed A clobber xs s = (e, s') \<Longrightarrow> r_vals s' = r_vals s"
proof (induction xs arbitrary: s clobber)
  case Nil
  then show ?case by simp
next
  case (Cons x xs)
  obtain r_idx r where x: "x = (r_idx, r)" by (cases x)
  from Cons.prems show ?case
    unfolding x
    by (auto split: option.splits if_splits prod.splits dest: Cons.IH)
qed

lemma check_inputs_r_vals:
  "check_inputs c node A clobber s = (e, s') \<Longrightarrow> r_vals s' = r_vals s"
  by (auto simp: check_inputs_def split: option.splits dest: check_inputs_loop_r_vals)

lemma refill_inputs_r_vals:
  "refill_inputs c rs s = (e, s') \<Longrightarrow> r_vals s' = r_vals s"
proof (induction rs arbitrary: s)
  case Nil
  then show ?case by simp
next
  case (Cons r rs)
  from Cons.prems show ?case
    by (auto split: option.splits dest!: Cons.IH)
qed

lemma c_outputs_keeps:
  "c_outputs c rs s = (e, s') \<Longrightarrow> r_vals s r = Some v \<Longrightarrow> r_vals s' r = Some v"
proof (induction rs arbitrary: s)
  case Nil
  then show ?case by simp
next
  case (Cons r' rs)
  show ?case
  proof (cases "map_of (storage_map s) r'")
    case None
    with Cons.prems show ?thesis by simp
  next
    case (Some cell)
    show ?thesis
    proof (cases "is_valid_value c (vtype r') cell")
      case False
      with Some Cons.prems show ?thesis by simp
    next
      case True
      show ?thesis
      proof (cases "r_vals s r'")
        case None
        then have "r' \<noteq> r" using Cons.prems(2) by auto
        let ?s = "s\<lparr>r_vals := (r_vals s)(r' \<mapsto> cell),
                     storage_map := AList.update r' PyNone (storage_map s)\<rparr>"
        from Cons.prems(1) Some True None have "c_outputs c rs ?s = (e, s')" by simp
        moreover have "r_vals ?s r = Some v" using \<open>r' \<noteq> r\<close> Cons.prems(2) by simp
        ultimately show ?thesis by (rule Cons.IH)
      next
        case (Some val_py)
        show ?thesis
        proof (cases "values_eq_approx c (vtype r') val_py cell")
          case False
          with Some True \<open>map_of (storage_map s) r' = Some cell\<close> Cons.prems show ?thesis by simp
        next
          case eq: True
          let ?s = "s\<lparr>storage_map := AList.update r' PyNone (storage_map s)\<rparr>"
          from Cons.prems(1) Some True eq \<open>map_of (storage_map s) r' = Some cell\<close>
          have "c_outputs c rs ?s = (e, s')" by simp
          moreover have "r_vals ?s r = Some v" using Cons.prems(2) by simp
          ultimately show ?thesis by (rule Cons.IH)
        qed
      qed
    qed
  qed
qed

lemma c_block_keeps:
  assumes "c_block c A node thunk_c s = (e, s')" and "r_vals s r = Some v"
  shows "r_vals s' r = Some v"
proof (cases thunk_c)
  case None
  with assms show ?thesis by (simp add: c_block_def)
next
  case (Some thunk)
  let ?m1 = "refill_inputs c (inputs node) s"
  let ?m2 = "and_then ?m1 (run_thunk thunk)"
  let ?m3 = "and_then ?m2 (check_inputs c node A False)"
  let ?m4 = "and_then ?m3 (run_check_viewmap c node)"
  have blk: "and_then ?m4 (c_outputs c (outputs node)) = (e, s')"
    using assms(1) Some by (simp add: c_block_def)
  have k1: "r_vals s1 r = Some v" if "?m1 = (e1, s1)" for e1 s1
    using refill_inputs_r_vals[OF that] assms(2) by simp
  have k2: "r_vals s2 r = Some v" if "?m2 = (e2, s2)" for e2 s2
    using and_then_cases[OF that] k1 by (auto simp: run_thunk_def)
  have k3: "r_vals s3 r = Some v" if "?m3 = (e3, s3)" for e3 s3
    using and_then_cases[OF that] k2 by (auto dest: check_inputs_r_vals)
  have k4: "r_vals s4 r = Some v" if "?m4 = (e4, s4)" for e4 s4
    using and_then_cases[OF that] k3 by (auto simp: run_check_viewmap_def)
  from and_then_cases[OF blk] k4 show ?thesis
    by (auto dest: c_outputs_keeps)
qed


lemma put_inputs_r_vals:
  "put_inputs c rs s = (e, s') \<Longrightarrow> r_vals s' = r_vals s"
proof (induction rs arbitrary: s)
  case Nil
  then show ?case by simp
next
  case (Cons r rs)
  from Cons.prems show ?case
    by (auto simp: Let_def split: option.splits if_splits dest!: Cons.IH)
qed

lemma clear_inputs_r_vals:
  "clear_inputs rs s = (e, s') \<Longrightarrow> r_vals s' = r_vals s"
proof (induction rs arbitrary: s)
  case Nil
  then show ?case by simp
next
  case (Cons r rs)
  from Cons.prems show ?case
    by (auto split: option.splits dest!: Cons.IH)
qed

lemma py_outputs_keeps:
  "py_outputs c rs s = (e, s') \<Longrightarrow> r_vals s r = Some v \<Longrightarrow> r_vals s' r = Some v"
proof (induction rs arbitrary: s)
  case Nil
  then show ?case by simp
next
  case (Cons r' rs)
  show ?case
  proof (cases "map_of (storage_map s) r'")
    case None
    with Cons.prems show ?thesis by simp
  next
    case (Some cell)
    show ?thesis
    proof (cases "\<not> is_valid_value c (vtype r') cell \<or> r_vals s r' \<noteq> None")
      case True
      with Some Cons.prems show ?thesis by (auto split: if_splits)
    next
      case False
      then have "r' \<noteq> r" using Cons.prems(2) by auto
      let ?s = "s\<lparr>r_vals := (r_vals s)(r' \<mapsto> cell),
                   storage_map := AList.update r' PyNone (storage_map s)\<rparr>"
      from Cons.prems(1) Some False have "py_outputs c rs ?s = (e, s')" by simp
      moreover have "r_vals ?s r = Some v" using \<open>r' \<noteq> r\<close> Cons.prems(2) by simp
      ultimately show ?thesis by (rule Cons.IH)
    qed
  qed
qed

lemma py_outputs_moves:
  "py_outputs c rs s = (None, s') \<Longrightarrow> distinct rs \<Longrightarrow>
   \<forall>r \<in> set rs. r_vals s r = None \<and> (\<exists>cell. map_of (storage_map s) r = Some cell
       \<and> r_vals s' r = Some cell \<and> is_valid_value c (vtype r) cell)"
proof (induction rs arbitrary: s)
  case Nil
  then show ?case by simp
next
  case (Cons r rs)
  from Cons.prems(1) obtain cell where cell: "map_of (storage_map s) r = Some cell"
    by (cases "map_of (storage_map s) r") auto
  from Cons.prems(1) cell have ok: "is_valid_value c (vtype r) cell" "r_vals s r = None"
    by (auto split: if_splits)
  let ?s = "s\<lparr>r_vals := (r_vals s)(r \<mapsto> cell),
               storage_map := AList.update r PyNone (storage_map s)\<rparr>"
  from Cons.prems(1) cell ok have run: "py_outputs c rs ?s = (None, s')" by simp
  have dist: "distinct rs" "r \<notin> set rs" using Cons.prems(2) by auto
  note IH = Cons.IH[OF run dist(1)]
  have here: "r_vals s' r = Some cell"
    using py_outputs_keeps[OF run, of r cell] by simp
  have rest: "\<forall>r' \<in> set rs. r_vals s r' = None \<and> (\<exists>cell. map_of (storage_map s) r' = Some cell
       \<and> r_vals s' r' = Some cell \<and> is_valid_value c (vtype r') cell)"
  proof
    fix r' assume r': "r' \<in> set rs"
    then have "r' \<noteq> r" using dist(2) by auto
    with IH r' show "r_vals s r' = None \<and> (\<exists>cell. map_of (storage_map s) r' = Some cell
       \<and> r_vals s' r' = Some cell \<and> is_valid_value c (vtype r') cell)"
      by (auto simp: update_conv')
  qed
  show ?case using cell ok here rest by simp
qed

lemma py_block_keeps:
  assumes "py_block c A node thunk_py s = (e, s')" and "r_vals s r = Some v"
  shows "r_vals s' r = Some v"
proof (cases thunk_py)
  case None
  with assms show ?thesis by (simp add: py_block_def)
next
  case (Some thunk)
  let ?m1 = "run_thunk thunk s"
  let ?m2 = "and_then ?m1 (check_inputs c node A True)"
  let ?m3 = "and_then ?m2 (run_check_viewmap c node)"
  have blk: "and_then ?m3 (py_outputs c (outputs node)) = (e, s')"
    using assms(1) Some by (simp add: py_block_def)
  have k2: "r_vals s2 r = Some v" if "?m2 = (e2, s2)" for e2 s2
    using that assms(2) by (auto simp: run_thunk_def dest: check_inputs_r_vals)
  have k3: "r_vals s3 r = Some v" if "?m3 = (e3, s3)" for e3 s3
    using and_then_cases[OF that] k2 by (auto simp: run_check_viewmap_def)
  from and_then_cases[OF blk] k3 show ?thesis
    by (auto dest: py_outputs_keeps)
qed

lemma eval_node_keeps:
  assumes "eval_node c A job s = (e, s')" and "r_vals s r = Some v"
  shows "r_vals s' r = Some v"
proof -
  obtain thunk_py thunk_c node where job: "job = (thunk_py, thunk_c, node)" by (cases job)
  let ?m1 = "put_inputs c (inputs node) s"
  let ?m2 = "and_then ?m1 (py_block c A node thunk_py)"
  let ?m3 = "and_then ?m2 (c_block c A node thunk_c)"
  have blk: "and_then ?m3 (clear_inputs (inputs node)) = (e, s')"
    using assms(1) by (simp add: eval_node_def job)
  have k1: "r_vals s1 r = Some v" if "?m1 = (e1, s1)" for e1 s1
    using put_inputs_r_vals[OF that] assms(2) by simp
  have k2: "r_vals s2 r = Some v" if "?m2 = (e2, s2)" for e2 s2
    using and_then_cases[OF that] k1 by (auto dest: py_block_keeps)
  have k3: "r_vals s3 r = Some v" if "?m3 = (e3, s3)" for e3 s3
    using and_then_cases[OF that] k2 by (auto dest: c_block_keeps)
  from and_then_cases[OF blk] k3 show ?thesis
    by (auto dest: clear_inputs_r_vals)
qed

lemma eval_order_keeps:
  "eval_order c A jobs s = (e, s') \<Longrightarrow> r_vals s r = Some v \<Longrightarrow> r_vals s' r = Some v"
proof (induction jobs arbitrary: s)
  case Nil
  then show ?case by simp
next
  case (Cons job jobs)
  from and_then_cases[OF Cons.prems(1)[simplified]] show ?case
  proof
    assume "\<exists>e0. eval_node c A job s = (Some e0, s') \<and> e = Some e0"
    then show ?thesis using eval_node_keeps Cons.prems(2) by blast
  next
    assume "\<exists>s1. eval_node c A job s = (None, s1) \<and> eval_order c A jobs s1 = (e, s')"
    then obtain s1 where s1: "eval_node c A job s = (None, s1)" "eval_order c A jobs s1 = (e, s')"
      by blast
    from eval_node_keeps[OF s1(1) Cons.prems(2)] have "r_vals s1 r = Some v" .
    from Cons.IH[OF s1(2) this] show ?thesis .
  qed
qed

lemma eval_node_after_reference:
  assumes "put_inputs c (inputs node) s = (None, sa)"
    and "py_block c A node thunk_py sa = (None, s1)" and "r_vals s1 r = Some v"
  shows "r_vals (snd (eval_node c A (thunk_py, thunk_c, node) s)) r = Some v"
proof -
  have run: "eval_node c A (thunk_py, thunk_c, node) s
              = and_then (c_block c A node thunk_c s1) (clear_inputs (inputs node))"
    by (simp add: eval_node_def assms(1,2))
  obtain e s' where out: "and_then (c_block c A node thunk_c s1) (clear_inputs (inputs node)) = (e, s')"
    by (cases "and_then (c_block c A node thunk_c s1) (clear_inputs (inputs node))")
  from and_then_cases[OF out] have "r_vals s' r = Some v"
    using c_block_keeps[OF _ assms(3)] clear_inputs_r_vals by (metis)
  then show ?thesis by (simp add: run out)
qed

lemma c_outputs_prefix:
  assumes "distinct (pre @ rest)"
    and "\<forall>r \<in> set pre. \<exists>val_py cell. r_vals s r = Some val_py
            \<and> map_of (storage_map s) r = Some cell \<and> is_valid_value c (vtype r) cell
            \<and> values_eq_approx c (vtype r) val_py cell"
  shows "\<exists>s'. c_outputs c (pre @ rest) s = c_outputs c rest s' \<and> r_vals s' = r_vals s
           \<and> (\<forall>r. r \<notin> set pre \<longrightarrow> map_of (storage_map s') r = map_of (storage_map s) r)"
  using assms
proof (induction pre arbitrary: s)
  case Nil
  show ?case by (rule exI[of _ s]) simp
next
  case (Cons r pre)
  from Cons.prems(2) obtain val_py cell where here: "r_vals s r = Some val_py"
      "map_of (storage_map s) r = Some cell" "is_valid_value c (vtype r) cell"
      "values_eq_approx c (vtype r) val_py cell"
    by auto
  let ?s = "s\<lparr>storage_map := AList.update r PyNone (storage_map s)\<rparr>"
  have step: "c_outputs c ((r # pre) @ rest) s = c_outputs c (pre @ rest) ?s"
    by (simp add: here)
  have dist: "distinct (pre @ rest)" and notin: "r \<notin> set pre" using Cons.prems(1) by auto
  have hyp: "\<forall>r \<in> set pre. \<exists>val_py cell. r_vals ?s r = Some val_py
            \<and> map_of (storage_map ?s) r = Some cell \<and> is_valid_value c (vtype r) cell
            \<and> values_eq_approx c (vtype r) val_py cell"
  proof
    fix r' assume r': "r' \<in> set pre"
    then have "r' \<noteq> r" using notin by auto
    with Cons.prems(2) r' show "\<exists>val_py cell. r_vals ?s r' = Some val_py
            \<and> map_of (storage_map ?s) r' = Some cell \<and> is_valid_value c (vtype r') cell
            \<and> values_eq_approx c (vtype r') val_py cell"
      by (simp add: update_conv')
  qed
  from Cons.IH[OF dist hyp] obtain s' where s': "c_outputs c (pre @ rest) ?s = c_outputs c rest s'"
      "r_vals s' = r_vals ?s"
      "\<forall>r. r \<notin> set pre \<longrightarrow> map_of (storage_map s') r = map_of (storage_map ?s) r"
    by blast
  have "c_outputs c ((r # pre) @ rest) s = c_outputs c rest s'"
    by (simp only: step s'(1))
  moreover have "r_vals s' = r_vals s" using s'(2) by simp
  moreover have "\<forall>r'. r' \<notin> set (r # pre) \<longrightarrow> map_of (storage_map s') r' = map_of (storage_map s) r'"
    using s'(3) by (simp add: update_conv')
  ultimately show ?case by blast
qed

lemma c_block_reaches_outputs:
  assumes "refill_inputs c (inputs node) s = (None, s1)"
    and "check_inputs c node A False (s1\<lparr>storage_map := thunk (storage_map s1)\<rparr>) = (None, s2)"
    and "check_viewmap c node (storage_map s2) = None"
  shows "c_block c A node (Some thunk) s = c_outputs c (outputs node) s2"
  by (simp add: c_block_def assms run_thunk_def run_check_viewmap_def)


lemma output_agrees_iff:
  "output_agrees c s r \<longleftrightarrow> (\<exists>val_py cell. r_vals s r = Some val_py
      \<and> map_of (storage_map s) r = Some cell \<and> is_valid_value c (vtype r) cell
      \<and> values_eq_approx c (vtype r) val_py cell)"
  by (auto simp: output_agrees_def split: option.splits)

lemma c_outputs_at_first:
  assumes "distinct (pre @ r # post)" and "list_all (output_agrees c s) pre"
  shows "\<exists>s'. c_outputs c (pre @ r # post) s = c_outputs c (r # post) s'
           \<and> r_vals s' = r_vals s \<and> map_of (storage_map s') r = map_of (storage_map s) r"
proof -
  have hyp: "\<forall>r \<in> set pre. \<exists>val_py cell. r_vals s r = Some val_py
            \<and> map_of (storage_map s) r = Some cell \<and> is_valid_value c (vtype r) cell
            \<and> values_eq_approx c (vtype r) val_py cell"
    using assms(2) by (simp add: list_all_iff output_agrees_iff)
  have "r \<notin> set pre" using assms(1) by auto
  with c_outputs_prefix[OF assms(1) hyp] show ?thesis by blast
qed

lemma c_outputs_mismatch:
  assumes "distinct (pre @ r # post)" and "list_all (output_agrees c s) pre"
    and "r_vals s r = Some val_py" and "map_of (storage_map s) r = Some cell"
    and "is_valid_value c (vtype r) cell" and "\<not> values_eq_approx c (vtype r) val_py cell"
  shows "fst (c_outputs c (pre @ r # post) s) = Some (BadCLinkerOutput r val_py cell)"
proof -
  from c_outputs_at_first[OF assms(1,2)] obtain s'
    where s': "c_outputs c (pre @ r # post) s = c_outputs c (r # post) s'"
      "r_vals s' = r_vals s" "map_of (storage_map s') r = map_of (storage_map s) r"
    by blast
  have "fst (c_outputs c (r # post) s') = Some (BadCLinkerOutput r val_py cell)"
    using assms(3-6) s'(2,3) by simp
  then show ?thesis by (simp only: s'(1))
qed

lemma c_outputs_invalid:
  assumes "distinct (pre @ r # post)" and "list_all (output_agrees c s) pre"
    and "map_of (storage_map s) r = Some cell" and "\<not> is_valid_value c (vtype r) cell"
  shows "fst (c_outputs c (pre @ r # post) s) = Some (InvalidValueError r cell)"
proof -
  from c_outputs_at_first[OF assms(1,2)] obtain s'
    where s': "c_outputs c (pre @ r # post) s = c_outputs c (r # post) s'"
      "r_vals s' = r_vals s" "map_of (storage_map s') r = map_of (storage_map s) r"
    by blast
  have "fst (c_outputs c (r # post) s') = Some (InvalidValueError r cell)"
    using assms(3,4) s'(3) by simp
  then show ?thesis by (simp only: s'(1))
qed

lemma c_outputs_agree:
  assumes "distinct rs" and "list_all (output_agrees c s) rs"
  shows "fst (c_outputs c rs s) = None"
proof -
  have hyp: "\<forall>r \<in> set rs. \<exists>val_py cell. r_vals s r = Some val_py
            \<and> map_of (storage_map s) r = Some cell \<and> is_valid_value c (vtype r) cell
            \<and> values_eq_approx c (vtype r) val_py cell"
    using assms(2) by (simp add: list_all_iff output_agrees_iff)
  have d: "distinct (rs @ [])" using assms(1) by simp
  from c_outputs_prefix[OF d hyp] obtain s' where "c_outputs c (rs @ []) s = c_outputs c [] s'"
    by blast
  then show ?thesis by simp
qed

lemma c_outputs_disagree:
  assumes "distinct rs" and "\<not> list_all (output_agrees c s) rs"
    and "list_all (\<lambda>r. r_vals s r \<noteq> None \<and> map_of (storage_map s) r \<noteq> None) rs"
  shows "\<exists>r v. fst (c_outputs c rs s) = Some (BadCLinkerOutput r (the (r_vals s r)) v)
            \<or> fst (c_outputs c rs s) = Some (InvalidValueError r v)"
proof -
  from assms(2) have "\<exists>r \<in> set rs. \<not> output_agrees c s r" by (simp add: list_all_iff)
  from split_list_first_prop[OF this] obtain pre r post
    where split: "rs = pre @ r # post" and bad: "\<not> output_agrees c s r"
      and good: "\<forall>r' \<in> set pre. \<not> \<not> output_agrees c s r'"
    by blast
  have pre: "list_all (output_agrees c s) pre" using good by (simp add: list_all_iff)
  have d: "distinct (pre @ r # post)" using assms(1) split by simp
  from assms(3) split obtain val_py cell
    where here: "r_vals s r = Some val_py" "map_of (storage_map s) r = Some cell"
    by (auto simp: list_all_iff)
  show ?thesis
  proof (cases "is_valid_value c (vtype r) cell")
    case True
    with bad here have "\<not> values_eq_approx c (vtype r) val_py cell"
      by (simp add: output_agrees_def)
    from c_outputs_mismatch[OF d pre here True this] show ?thesis
      by (auto simp: split here)
  next
    case False
    from c_outputs_invalid[OF d pre here(2) False] show ?thesis
      by (auto simp: split)
  qed
qed

lemma py_outputs_fresh:
  "py_outputs c rs s = (None, s') \<Longrightarrow>
   distinct rs \<and> (\<forall>r \<in> set rs. r_vals s r = None)"
proof (induction rs arbitrary: s)
  case Nil
  then show ?case by simp
next
  case (Cons r rs)
  from Cons.prems(1) obtain cell where cell: "map_of (storage_map s) r = Some cell"
    by (cases "map_of (storage_map s) r") auto
  from Cons.prems(1) cell have ok: "is_valid_value c (vtype r) cell" "r_vals s r = None"
    by (auto split: if_splits)
  let ?s = "s\<lparr>r_vals := (r_vals s)(r \<mapsto> cell),
               storage_map := AList.update r PyNone (storage_map s)\<rparr>"
  from Cons.prems(1) cell ok have run: "py_outputs c rs ?s = (None, s')" by simp
  from Cons.IH[OF run] have IH: "distinct rs" "\<forall>r' \<in> set rs. r_vals ?s r' = None" by auto
  have "r \<notin> set rs" using IH(2) by auto
  moreover have "\<forall>r' \<in> set rs. r_vals s r' = None"
  proof
    fix r' assume "r' \<in> set rs"
    with IH(2) have "r_vals ?s r' = None" by blast
    then show "r_vals s r' = None" by (cases "r' = r") auto
  qed
  ultimately show ?case using IH(1) ok(2) by simp
qed

lemma py_block_places_outputs:
  assumes "py_block c A node (Some thunk) s = (None, s1)"
  shows "\<exists>s2. check_inputs c node A True (s\<lparr>storage_map := thunk (storage_map s)\<rparr>) = (None, s2)
           \<and> (\<forall>r \<in> set (outputs node). r_vals s r = None
                 \<and> (\<exists>cell. map_of (storage_map s2) r = Some cell \<and> r_vals s1 r = Some cell))"
proof -
  let ?m2 = "check_inputs c node A True (s\<lparr>storage_map := thunk (storage_map s)\<rparr>)"
  let ?m3 = "and_then ?m2 (run_check_viewmap c node)"
  have blk: "and_then ?m3 (py_outputs c (outputs node)) = (None, s1)"
    using assms by (simp add: py_block_def run_thunk_def)
  from and_then_cases[OF blk] obtain s3
    where s3: "?m3 = (None, s3)" "py_outputs c (outputs node) s3 = (None, s1)"
    by auto
  from and_then_cases[OF s3(1)] obtain s2
    where s2: "?m2 = (None, s2)" "run_check_viewmap c node s2 = (None, s3)"
    by auto
  from s2(2) have same: "s3 = s2" by (simp add: run_check_viewmap_def)
  from py_outputs_fresh[OF s3(2)] have d: "distinct (outputs node)" by simp
  note moved = py_outputs_moves[OF s3(2) d]
  have rv: "r_vals s2 = r_vals s" using check_inputs_r_vals[OF s2(1)] by simp
  have "\<forall>r \<in> set (outputs node). r_vals s r = None
          \<and> (\<exists>cell. map_of (storage_map s2) r = Some cell \<and> r_vals s1 r = Some cell)"
  proof
    fix r assume "r \<in> set (outputs node)"
    with moved show "r_vals s r = None
          \<and> (\<exists>cell. map_of (storage_map s2) r = Some cell \<and> r_vals s1 r = Some cell)"
      by (auto simp: same rv)
  qed
  with s2(1) show ?thesis by blast
qed

lemma eval_order_after_reference:
  assumes "put_inputs c (inputs node) s = (None, sa)"
    and "py_block c A node thunk_py sa = (None, s1)" and "r_vals s1 r = Some v"
  shows "r_vals (snd (eval_order c A ((thunk_py, thunk_c, node) # jobs) s)) r = Some v"
proof -
  let ?job = "(thunk_py, thunk_c, node)"
  note node = eval_node_after_reference[OF assms, of thunk_c]
  obtain e s' where out: "eval_node c A ?job s = (e, s')" by (cases "eval_node c A ?job s")
  with node have kept: "r_vals s' r = Some v" by simp
  show ?thesis
  proof (cases e)
    case None
    obtain e2 s2 where rest: "eval_order c A jobs s' = (e2, s2)"
      by (cases "eval_order c A jobs s'")
    from eval_order_keeps[OF rest kept] have "r_vals s2 r = Some v" .
    then show ?thesis using out None rest by simp
  next
    case (Some e0)
    then show ?thesis using out kept by simp
  qed
qed

lemma r_vals_kept:
  assumes "r_vals s r = Some v"
  shows "r_vals (snd (put_inputs c xs s)) r = Some v"
    and "r_vals (snd (check_inputs c node A clobber s)) r = Some v"
    and "r_vals (snd (py_block c A node th s)) r = Some v"
    and "r_vals (snd (c_outputs c rs s)) r = Some v"
    and "r_vals (snd (c_block c A node th s)) r = Some v"
    and "r_vals (snd (clear_inputs xs s)) r = Some v"
    and "r_vals (snd (eval_node c A job s)) r = Some v"
    and "r_vals (snd (eval_order c A jobs s)) r = Some v"
proof -
  show "r_vals (snd (put_inputs c xs s)) r = Some v"
    using put_inputs_r_vals[of c xs s] assms by (cases "put_inputs c xs s") simp
  show "r_vals (snd (check_inputs c node A clobber s)) r = Some v"
    using check_inputs_r_vals[of c node A clobber s] assms
    by (cases "check_inputs c node A clobber s") simp
  show "r_vals (snd (py_block c A node th s)) r = Some v"
    using py_block_keeps[of c A node th s] assms by (cases "py_block c A node th s") simp
  show "r_vals (snd (c_outputs c rs s)) r = Some v"
    using c_outputs_keeps[of c rs s] assms by (cases "c_outputs c rs s") simp
  show "r_vals (snd (c_block c A node th s)) r = Some v"
    using c_block_keeps[of c A node th s] assms by (cases "c_block c A node th s") simp
  show "r_vals (snd (clear_inputs xs s)) r = Some v"
    using clear_inputs_r_vals[of xs s] assms by (cases "clear_inputs xs s") simp
  show "r_vals (snd (eval_node c A job s)) r = Some v"
    using eval_node_keeps[of c A job s] assms by (cases "eval_node c A job s") simp
  show "r_vals (snd (eval_order c A jobs s)) r = Some v"
    using eval_order_keeps[of c A jobs s] assms by (cases "eval_order c A jobs s") simp
qed

lemma eval_node_raises_compiled:
  assumes "put_inputs c (inputs node) s0 = (None, sa)"
    and "py_block c A node thunk_py sa = (None, s1)"
    and "refill_inputs c (inputs node) s1 = (None, s1')"
    and "check_inputs c node A False (s1'\<lparr>storage_map := thunk_c (storage_map s1')\<rparr>) = (None, s)"
    and "check_viewmap c node (storage_map s) = None"
    and "fst (c_outputs c (outputs node) s) = Some e"
  shows "fst (eval_node c A (thunk_py, Some thunk_c, node) s0) = Some e"
    and "fst (eval_order c A ((thunk_py, Some thunk_c, node) # jobs) s0) = Some e"
proof -
  obtain s' where out: "c_outputs c (outputs node) s = (Some e, s')"
    using assms(6) by (cases "c_outputs c (outputs node) s") simp
  have "c_block c A node (Some thunk_c) s1 = c_outputs c (outputs node) s"
    using assms(3,4,5) by (rule c_block_reaches_outputs)
  then have blk: "c_block c A node (Some thunk_c) s1 = (Some e, s')"
    using out by simp
  show node: "fst (eval_node c A (thunk_py, Some thunk_c, node) s0) = Some e"
    by (simp add: eval_node_def assms(1,2) blk)
  obtain s'' where "eval_node c A (thunk_py, Some thunk_c, node) s0 = (Some e, s'')"
    using node by (cases "eval_node c A (thunk_py, Some thunk_c, node) s0") simp
  then show "fst (eval_order c A ((thunk_py, Some thunk_c, node) # jobs) s0) = Some e"
    by simp
qed


text \<open>
  Claim C4, as amended. When the reference thunk and the compiled thunk have both run for a
  node and the destroy-map and view-map checks of the compiled run have passed,
  \<^verbatim>\<open>c_block\<close> continues with the loop over the outputs, and what that loop raises is raised
  by the evaluation of the node and of the whole order. The loop validates and compares the
  outputs in turn. At the first output that does not agree with the reference run: if it is
  in \<^verbatim>\<open>r_vals\<close> and its compiled value is valid for its type but not approximately equal to
  the value in \<^verbatim>\<open>r_vals\<close>, \<^verbatim>\<open>BadCLinkerOutput\<close> is raised with the variable, the reference
  value and the compiled value; if its compiled value is invalid, \<^verbatim>\<open>InvalidValueError\<close> is
  raised instead. When every output has a reference value and a compiled cell, no error is
  raised exactly when all of them agree. The reference run moves the values that the
  reference thunk left in the output cells into \<^verbatim>\<open>r_vals\<close>, and a value that \<^verbatim>\<open>r_vals\<close> holds
  is kept by every later step: the loading of inputs, the destroy-map check, the block of
  either backend, the clearing of inputs, the evaluation of any node and of the rest of the
  order, whether they return or raise.
\<close>

theorem compiled_outputs_compared:
  assumes "distinct rs"
  shows "(\<forall>pre r post val_py cell.
            rs = pre @ r # post \<and> list_all (output_agrees c s) pre
            \<and> r_vals s r = Some val_py \<and> map_of (storage_map s) r = Some cell
            \<and> is_valid_value c (vtype r) cell \<and> \<not> values_eq_approx c (vtype r) val_py cell
            \<longrightarrow> fst (c_outputs c rs s) = Some (BadCLinkerOutput r val_py cell))
       \<and> (\<forall>pre r post cell.
            rs = pre @ r # post \<and> list_all (output_agrees c s) pre
            \<and> map_of (storage_map s) r = Some cell \<and> \<not> is_valid_value c (vtype r) cell
            \<longrightarrow> fst (c_outputs c rs s) = Some (InvalidValueError r cell))
       \<and> (list_all (\<lambda>r. r_vals s r \<noteq> None \<and> map_of (storage_map s) r \<noteq> None) rs
            \<longrightarrow> (fst (c_outputs c rs s) = None) = list_all (output_agrees c s) rs)
       \<and> (\<forall>A node thunk_c s0 s1.
            refill_inputs c (inputs node) s0 = (None, s1)
            \<and> check_inputs c node A False (s1\<lparr>storage_map := thunk_c (storage_map s1)\<rparr>) = (None, s)
            \<and> check_viewmap c node (storage_map s) = None
            \<longrightarrow> c_block c A node (Some thunk_c) s0 = c_outputs c (outputs node) s)
       \<and> (\<forall>A node thunk_py thunk_c jobs s0 sa s1 s1' e.
            put_inputs c (inputs node) s0 = (None, sa)
            \<and> py_block c A node thunk_py sa = (None, s1)
            \<and> refill_inputs c (inputs node) s1 = (None, s1')
            \<and> check_inputs c node A False (s1'\<lparr>storage_map := thunk_c (storage_map s1')\<rparr>) = (None, s)
            \<and> check_viewmap c node (storage_map s) = None
            \<and> fst (c_outputs c (outputs node) s) = Some e
            \<longrightarrow> fst (eval_node c A (thunk_py, Some thunk_c, node) s0) = Some e
                \<and> fst (eval_order c A ((thunk_py, Some thunk_c, node) # jobs) s0) = Some e)
       \<and> (\<forall>A node thunk_py thunk_c jobs s0 sa s1.
            put_inputs c (inputs node) s0 = (None, sa)
            \<and> py_block c A node (Some thunk_py) sa = (None, s1)
            \<longrightarrow> (\<exists>s2. check_inputs c node A True (sa\<lparr>storage_map := thunk_py (storage_map sa)\<rparr>)
                         = (None, s2)
                    \<and> (\<forall>r \<in> set (outputs node). \<exists>cell.
                          map_of (storage_map s2) r = Some cell \<and> r_vals s1 r = Some cell
                          \<and> r_vals (snd (eval_node c A (Some thunk_py, thunk_c, node) s0)) r
                              = Some cell
                          \<and> r_vals (snd (eval_order c A ((Some thunk_py, thunk_c, node) # jobs) s0)) r
                              = Some cell)))
       \<and> (\<forall>r v. r_vals s r = Some v \<longrightarrow>
            r_vals (snd (c_outputs c rs s)) r = Some v
            \<and> (\<forall>A node clobber xs th job jobs.
                 r_vals (snd (put_inputs c xs s)) r = Some v
                 \<and> r_vals (snd (check_inputs c node A clobber s)) r = Some v
                 \<and> r_vals (snd (py_block c A node th s)) r = Some v
                 \<and> r_vals (snd (c_block c A node th s)) r = Some v
                 \<and> r_vals (snd (clear_inputs xs s)) r = Some v
                 \<and> r_vals (snd (eval_node c A job s)) r = Some v
                 \<and> r_vals (snd (eval_order c A jobs s)) r = Some v))"
proof (intro conjI)
  show "\<forall>pre r post val_py cell.
            rs = pre @ r # post \<and> list_all (output_agrees c s) pre
            \<and> r_vals s r = Some val_py \<and> map_of (storage_map s) r = Some cell
            \<and> is_valid_value c (vtype r) cell \<and> \<not> values_eq_approx c (vtype r) val_py cell
            \<longrightarrow> fst (c_outputs c rs s) = Some (BadCLinkerOutput r val_py cell)"
    using assms c_outputs_mismatch[of _ _ _ c s] by blast
  show "\<forall>pre r post cell.
            rs = pre @ r # post \<and> list_all (output_agrees c s) pre
            \<and> map_of (storage_map s) r = Some cell \<and> \<not> is_valid_value c (vtype r) cell
            \<longrightarrow> fst (c_outputs c rs s) = Some (InvalidValueError r cell)"
    using assms c_outputs_invalid[of _ _ _ c s] by blast
  show "list_all (\<lambda>r. r_vals s r \<noteq> None \<and> map_of (storage_map s) r \<noteq> None) rs
            \<longrightarrow> (fst (c_outputs c rs s) = None) = list_all (output_agrees c s) rs"
  proof
    assume keys: "list_all (\<lambda>r. r_vals s r \<noteq> None \<and> map_of (storage_map s) r \<noteq> None) rs"
    show "(fst (c_outputs c rs s) = None) = list_all (output_agrees c s) rs"
    proof (cases "list_all (output_agrees c s) rs")
      case True
      with c_outputs_agree[OF assms True] show ?thesis by simp
    next
      case False
      from c_outputs_disagree[OF assms False keys] have "fst (c_outputs c rs s) \<noteq> None" by auto
      with False show ?thesis by simp
    qed
  qed
  show "\<forall>A node thunk_c s0 s1.
            refill_inputs c (inputs node) s0 = (None, s1)
            \<and> check_inputs c node A False (s1\<lparr>storage_map := thunk_c (storage_map s1)\<rparr>) = (None, s)
            \<and> check_viewmap c node (storage_map s) = None
            \<longrightarrow> c_block c A node (Some thunk_c) s0 = c_outputs c (outputs node) s"
    using c_block_reaches_outputs by blast
  show "\<forall>A node thunk_py thunk_c jobs s0 sa s1 s1' e.
            put_inputs c (inputs node) s0 = (None, sa)
            \<and> py_block c A node thunk_py sa = (None, s1)
            \<and> refill_inputs c (inputs node) s1 = (None, s1')
            \<and> check_inputs c node A False (s1'\<lparr>storage_map := thunk_c (storage_map s1')\<rparr>) = (None, s)
            \<and> check_viewmap c node (storage_map s) = None
            \<and> fst (c_outputs c (outputs node) s) = Some e
            \<longrightarrow> fst (eval_node c A (thunk_py, Some thunk_c, node) s0) = Some e
                \<and> fst (eval_order c A ((thunk_py, Some thunk_c, node) # jobs) s0) = Some e"
  proof (intro allI impI)
    fix A node thunk_py thunk_c jobs e and s0 sa s1 s1' :: "('a, 'b) fstate"
    assume run: "put_inputs c (inputs node) s0 = (None, sa)
            \<and> py_block c A node thunk_py sa = (None, s1)
            \<and> refill_inputs c (inputs node) s1 = (None, s1')
            \<and> check_inputs c node A False (s1'\<lparr>storage_map := thunk_c (storage_map s1')\<rparr>) = (None, s)
            \<and> check_viewmap c node (storage_map s) = None
            \<and> fst (c_outputs c (outputs node) s) = Some e"
    then have steps: "put_inputs c (inputs node) s0 = (None, sa)"
        "py_block c A node thunk_py sa = (None, s1)"
        "refill_inputs c (inputs node) s1 = (None, s1')"
        "check_inputs c node A False (s1'\<lparr>storage_map := thunk_c (storage_map s1')\<rparr>) = (None, s)"
        "check_viewmap c node (storage_map s) = None"
        "fst (c_outputs c (outputs node) s) = Some e"
      by simp_all
    have "fst (eval_node c A (thunk_py, Some thunk_c, node) s0) = Some e"
      using steps by (rule eval_node_raises_compiled(1))
    moreover have "fst (eval_order c A ((thunk_py, Some thunk_c, node) # jobs) s0) = Some e"
      using steps by (rule eval_node_raises_compiled(2))
    ultimately show "fst (eval_node c A (thunk_py, Some thunk_c, node) s0) = Some e
                \<and> fst (eval_order c A ((thunk_py, Some thunk_c, node) # jobs) s0) = Some e"
      by simp
  qed
  show "\<forall>A node thunk_py thunk_c jobs s0 sa s1.
            put_inputs c (inputs node) s0 = (None, sa)
            \<and> py_block c A node (Some thunk_py) sa = (None, s1)
            \<longrightarrow> (\<exists>s2. check_inputs c node A True (sa\<lparr>storage_map := thunk_py (storage_map sa)\<rparr>)
                         = (None, s2)
                    \<and> (\<forall>r \<in> set (outputs node). \<exists>cell.
                          map_of (storage_map s2) r = Some cell \<and> r_vals s1 r = Some cell
                          \<and> r_vals (snd (eval_node c A (Some thunk_py, thunk_c, node) s0)) r
                              = Some cell
                          \<and> r_vals (snd (eval_order c A ((Some thunk_py, thunk_c, node) # jobs) s0)) r
                              = Some cell))"
  proof (intro allI impI)
    fix A node thunk_py thunk_c jobs and s0 sa s1 :: "('a, 'b) fstate"
    assume run: "put_inputs c (inputs node) s0 = (None, sa)
            \<and> py_block c A node (Some thunk_py) sa = (None, s1)"
    then have put: "put_inputs c (inputs node) s0 = (None, sa)"
      and py: "py_block c A node (Some thunk_py) sa = (None, s1)"
      by simp_all
    from py_block_places_outputs[OF py] obtain s2
      where s2: "check_inputs c node A True (sa\<lparr>storage_map := thunk_py (storage_map sa)\<rparr>) = (None, s2)"
        and placed: "\<forall>r \<in> set (outputs node). r_vals sa r = None
                 \<and> (\<exists>cell. map_of (storage_map s2) r = Some cell \<and> r_vals s1 r = Some cell)"
      by blast
    have "\<forall>r \<in> set (outputs node). \<exists>cell.
                          map_of (storage_map s2) r = Some cell \<and> r_vals s1 r = Some cell
                          \<and> r_vals (snd (eval_node c A (Some thunk_py, thunk_c, node) s0)) r
                              = Some cell
                          \<and> r_vals (snd (eval_order c A ((Some thunk_py, thunk_c, node) # jobs) s0)) r
                              = Some cell"
    proof
      fix r assume "r \<in> set (outputs node)"
      with placed obtain cell where cell: "map_of (storage_map s2) r = Some cell"
          "r_vals s1 r = Some cell"
        by blast
      from eval_node_after_reference[OF put py cell(2)] eval_order_after_reference[OF put py cell(2)]
        cell
      show "\<exists>cell. map_of (storage_map s2) r = Some cell \<and> r_vals s1 r = Some cell
                          \<and> r_vals (snd (eval_node c A (Some thunk_py, thunk_c, node) s0)) r
                              = Some cell
                          \<and> r_vals (snd (eval_order c A ((Some thunk_py, thunk_c, node) # jobs) s0)) r
                              = Some cell"
        by blast
    qed
    with s2 show "\<exists>s2. check_inputs c node A True (sa\<lparr>storage_map := thunk_py (storage_map sa)\<rparr>)
                         = (None, s2)
                    \<and> (\<forall>r \<in> set (outputs node). \<exists>cell.
                          map_of (storage_map s2) r = Some cell \<and> r_vals s1 r = Some cell
                          \<and> r_vals (snd (eval_node c A (Some thunk_py, thunk_c, node) s0)) r
                              = Some cell
                          \<and> r_vals (snd (eval_order c A ((Some thunk_py, thunk_c, node) # jobs) s0)) r
                              = Some cell)"
      by blast
  qed
  show "\<forall>r v. r_vals s r = Some v \<longrightarrow>
            r_vals (snd (c_outputs c rs s)) r = Some v
            \<and> (\<forall>A node clobber xs th job jobs.
                 r_vals (snd (put_inputs c xs s)) r = Some v
                 \<and> r_vals (snd (check_inputs c node A clobber s)) r = Some v
                 \<and> r_vals (snd (py_block c A node th s)) r = Some v
                 \<and> r_vals (snd (c_block c A node th s)) r = Some v
                 \<and> r_vals (snd (clear_inputs xs s)) r = Some v
                 \<and> r_vals (snd (eval_node c A job s)) r = Some v
                 \<and> r_vals (snd (eval_order c A jobs s)) r = Some v)"
    by (intro allI impI conjI; erule r_vals_kept)
qed

lemma ex_xz: "ex_x \<noteq> ex_z" "ex_z \<noteq> ex_x"
  by (simp_all add: ex_x_def ex_z_def)

text \<open>
  Witness for C4 as amended: the reference value of \<open>z\<close> is 2, the compiled one is 3.
\<close>

theorem compiled_outputs_compared_witness:
  "distinct [ex_z] \<and> r_vals ex_c_state ex_z = Some (PyObj (7, 2))
   \<and> map_of (storage_map ex_c_state) ex_z = Some (PyObj (8, 3))
   \<and> is_valid_value ex_contract (vtype ex_z) (PyObj (8, 3))
   \<and> \<not> values_eq_approx ex_contract (vtype ex_z) (PyObj (7, 2)) (PyObj (8, 3))
   \<and> fst (c_outputs ex_contract [ex_z] ex_c_state)
       = Some (BadCLinkerOutput ex_z (PyObj (7, 2)) (PyObj (8, 3)))
   \<and> r_vals (snd (c_outputs ex_contract [ex_z] ex_c_state)) ex_z = Some (PyObj (7, 2))"
proof -
  have d: "distinct [ex_z]" by simp
  have rv: "r_vals ex_c_state ex_z = Some (PyObj (7, 2))"
    by (simp add: ex_c_state_def)
  have cell: "map_of (storage_map ex_c_state) ex_z = Some (PyObj (8, 3))"
    by (simp add: ex_c_state_def ex_xz)
  have valid: "is_valid_value ex_contract (vtype ex_z) (PyObj (8, 3))"
    by (simp add: ex_contract_def ex_is_valid_value_def)
  have differ: "\<not> values_eq_approx ex_contract (vtype ex_z) (PyObj (7, 2)) (PyObj (8, 3))"
    by (simp add: ex_contract_def ex_values_eq_approx_def)
  note T = compiled_outputs_compared[OF d, of ex_contract ex_c_state]
  have first: "[ex_z] = [] @ ex_z # [] \<and> list_all (output_agrees ex_contract ex_c_state) []
            \<and> r_vals ex_c_state ex_z = Some (PyObj (7, 2))
            \<and> map_of (storage_map ex_c_state) ex_z = Some (PyObj (8, 3))
            \<and> is_valid_value ex_contract (vtype ex_z) (PyObj (8, 3))
            \<and> \<not> values_eq_approx ex_contract (vtype ex_z) (PyObj (7, 2)) (PyObj (8, 3))"
    using rv cell valid differ by simp
  from T[THEN conjunct1, THEN spec, THEN spec, THEN spec, THEN spec, THEN spec, THEN mp, OF first]
  have raised: "fst (c_outputs ex_contract [ex_z] ex_c_state)
       = Some (BadCLinkerOutput ex_z (PyObj (7, 2)) (PyObj (8, 3)))" .
  from T[THEN conjunct2, THEN conjunct2, THEN conjunct2, THEN conjunct2, THEN conjunct2,
         THEN conjunct2, THEN spec, THEN spec, THEN mp, OF rv, THEN conjunct1]
  have kept: "r_vals (snd (c_outputs ex_contract [ex_z] ex_c_state)) ex_z = Some (PyObj (7, 2))" .
  from d rv cell valid differ raised kept show ?thesis by blast
qed

text \<open>
  Counterexample to C4 as stated: both thunks run, the reference thunk gives \<open>z\<close> the value
  2, and the compiled thunk a value that differs and is invalid: the error is
  \<^verbatim>\<open>InvalidValueError\<close>, not \<^verbatim>\<open>BadCLinkerOutput\<close>.
\<close>

theorem compiled_outputs_invalid_counterexample:
  "\<not> values_eq_approx ex_contract (vtype ex_z) (PyObj (7, 2)) (PyObj (8, - 3))
   \<and> r_vals (snd (eval_node ex_contract {} (Some ex_add_thunk, Some ex_invalid_c_thunk, ex_node)
                   ex_start_state)) ex_z = Some (PyObj (7, 2))
   \<and> fst (eval_node ex_contract {} (Some ex_add_thunk, Some ex_invalid_c_thunk, ex_node)
            ex_start_state) = Some (InvalidValueError ex_z (PyObj (8, - 3)))"
  by (simp add: eval_node_def py_block_def c_block_def run_thunk_def run_check_viewmap_def
      check_inputs_def destroyed_res_list_def destroyed_idx_list_def check_viewmap_def
      check_viewmap_output_def is_used_in_graph_def is_function_output_def enumerate_eq_zip
      ex_start_state_def ex_node_def ex_add_def ex_add_thunk_def ex_invalid_c_thunk_def
      ex_contract_def ex_values_eq_approx_def ex_is_valid_value_def ex_deepcopy_def ex_py_id_def
      ex_ndarray_without_owndata_def ex_xz ex_x_def ex_z_def)

section \<open>Properties of the destroy-map check\<close>

lemma check_inputs_loop_sound:
  "check_inputs_loop c node destroyed A clobber (enumerate k rs) s
     = (Some (BadDestroyMap n i old new), s') \<Longrightarrow>
   n = node \<and> k \<le> i \<and> i - k < length rs \<and> rs ! (i - k) \<notin> set destroyed
   \<and> r_vals s (rs ! (i - k)) = Some old \<and> map_of (storage_map s) (rs ! (i - k)) = Some new
   \<and> \<not> values_eq_approx c (vtype (rs ! (i - k))) old new"
proof (induction rs arbitrary: k s clobber)
  case Nil
  then show ?case by simp
next
  case (Cons r rs)
  let ?goal = "\<lambda>k rs s. n = node \<and> k \<le> i \<and> i - k < length rs \<and> rs ! (i - k) \<notin> set destroyed
   \<and> r_vals s (rs ! (i - k)) = Some old \<and> map_of (storage_map s) (rs ! (i - k)) = Some new
   \<and> \<not> values_eq_approx c (vtype (rs ! (i - k))) old new"
  have later: "?goal k (r # rs) s" if tail: "?goal (Suc k) rs s"
  proof -
    from tail have "Suc k \<le> i" by simp
    then have "(r # rs) ! (i - k) = rs ! (i - Suc k)" by (simp add: Suc_diff_le nth_Cons')
    moreover have "i - k < length (r # rs)" using tail \<open>Suc k \<le> i\<close> by simp arith
    ultimately show ?thesis using tail \<open>Suc k \<le> i\<close> by simp
  qed
  from Cons.prems obtain r_val cell where vals: "r_vals s r = Some r_val"
      "map_of (storage_map s) r = Some cell"
    by (auto split: option.splits)
  show ?case
  proof (cases "values_eq_approx c (vtype r) r_val cell")
    case True
    with Cons.prems vals
    have "check_inputs_loop c node destroyed A clobber (enumerate (Suc k) rs) s
            = (Some (BadDestroyMap n i old new), s')" by simp
    from later[OF Cons.IH[OF this]] show ?thesis .
  next
    case differs: False
    show ?thesis
    proof (cases "r \<in> set destroyed")
      case False
      with differs vals Cons.prems show ?thesis by auto
    next
      case True
      show ?thesis
      proof (cases "node \<in> A")
        case False
        with True differs Cons.prems vals
        have "check_inputs_loop c node destroyed A clobber (enumerate (Suc k) rs) s
            = (Some (BadDestroyMap n i old new), s')" by simp
        from later[OF Cons.IH[OF this]] show ?thesis .
      next
        case active: True
        let ?s = "s\<lparr>dr_vals := (if clobber then (dr_vals s)(r \<mapsto> (cell, node)) else dr_vals s),
                     storage_map := AList.update r PyNone (storage_map s)\<rparr>"
        from active True differs Cons.prems vals
        have "check_inputs_loop c node destroyed A clobber (enumerate (Suc k) rs) ?s
            = (Some (BadDestroyMap n i old new), s')"
          by (simp split: if_splits)
        from Cons.IH[OF this] have tail: "?goal (Suc k) rs ?s" .
        then have "rs ! (i - Suc k) \<noteq> r" using True by auto
        with tail have "?goal (Suc k) rs s" by (simp add: update_conv')
        from later[OF this] show ?thesis .
      qed
    qed
  qed
qed


lemma check_inputs_loop_step:
  assumes "r_vals s r = Some r_val" and "map_of (storage_map s) r = Some cell"
    and "\<not> undeclared_change c destroyed s r" and "\<not> ordering_failure c node destroyed A s r"
  shows "\<exists>s1. check_inputs_loop c node destroyed A clobber ((k, r) # rest) s
                = check_inputs_loop c node destroyed A clobber rest s1
           \<and> r_vals s1 = r_vals s
           \<and> (\<forall>r'. r' \<notin> set destroyed \<longrightarrow> map_of (storage_map s1) r' = map_of (storage_map s) r')
           \<and> (\<forall>r'. (map_of (storage_map s1) r' \<noteq> None) = (map_of (storage_map s) r' \<noteq> None))
           \<and> (\<forall>r'. ordering_failure c node destroyed A s1 r' = ordering_failure c node destroyed A s r')"
proof (cases "\<not> values_eq_approx c (vtype r) r_val cell \<and> node \<in> A")
  case False
  have "check_inputs_loop c node destroyed A clobber ((k, r) # rest) s
          = check_inputs_loop c node destroyed A clobber rest s"
    using False assms by (auto simp: undeclared_change_def input_differs_def)
  then show ?thesis by blast
next
  case True
  then have differs: "\<not> values_eq_approx c (vtype r) r_val cell" and active: "node \<in> A"
    by simp_all
  have listed: "r \<in> set destroyed"
    using assms(1,2,3) differs by (simp add: undeclared_change_def input_differs_def)
  have own: "\<not> (case dr_vals s r of None \<Rightarrow> False | Some (v, n) \<Rightarrow> n \<noteq> node)"
    using assms(1,2,4) differs active listed by (simp add: ordering_failure_def input_differs_def)
  let ?s = "s\<lparr>dr_vals := (if clobber then (dr_vals s)(r \<mapsto> (cell, node)) else dr_vals s),
               storage_map := AList.update r PyNone (storage_map s)\<rparr>"
  have step: "check_inputs_loop c node destroyed A clobber ((k, r) # rest) s
          = check_inputs_loop c node destroyed A clobber rest ?s"
    using assms(1,2) differs active listed own by simp
  have rv: "r_vals ?s = r_vals s" by simp
  have cells: "\<forall>r'. r' \<notin> set destroyed \<longrightarrow> map_of (storage_map ?s) r' = map_of (storage_map s) r'"
    using listed by (auto simp: update_conv')
  have keys: "\<forall>r'. (map_of (storage_map ?s) r' \<noteq> None) = (map_of (storage_map s) r' \<noteq> None)"
    using assms(2) by (simp add: update_conv')
  have haz: "\<forall>r'. ordering_failure c node destroyed A ?s r' = ordering_failure c node destroyed A s r'"
  proof
    fix r'
    show "ordering_failure c node destroyed A ?s r' = ordering_failure c node destroyed A s r'"
    proof (cases "r' = r")
      case False
      then show ?thesis
        by (simp add: ordering_failure_def input_differs_def update_conv')
    next
      case True
      have "\<not> (case dr_vals ?s r of None \<Rightarrow> False | Some (v, n) \<Rightarrow> n \<noteq> node)"
        using own by simp
      then have "\<not> ordering_failure c node destroyed A ?s r"
        by (simp add: ordering_failure_def)
      moreover have "\<not> ordering_failure c node destroyed A s r" by (rule assms(4))
      ultimately show ?thesis using True by simp
    qed
  qed
  from step rv cells keys haz show ?thesis by blast
qed

lemma undeclared_change_cong:
  assumes "r_vals s1 = r_vals s"
    and "\<forall>r'. r' \<notin> set destroyed \<longrightarrow> map_of (storage_map s1) r' = map_of (storage_map s) r'"
  shows "undeclared_change c destroyed s1 r = undeclared_change c destroyed s r"
  using assms by (auto simp: undeclared_change_def input_differs_def)

lemma check_inputs_loop_prefix:
  assumes "\<forall>r \<in> set pre. r \<in> dom (r_vals s) \<and> map_of (storage_map s) r \<noteq> None"
    and "\<forall>r \<in> set pre. \<not> undeclared_change c destroyed s r
                         \<and> \<not> ordering_failure c node destroyed A s r"
  shows "\<exists>s'. check_inputs_loop c node destroyed A clobber (enumerate k (pre @ rest)) s
                = check_inputs_loop c node destroyed A clobber (enumerate (k + length pre) rest) s'
           \<and> r_vals s' = r_vals s
           \<and> (\<forall>r'. r' \<notin> set destroyed \<longrightarrow> map_of (storage_map s') r' = map_of (storage_map s) r')
           \<and> (\<forall>r'. (map_of (storage_map s') r' \<noteq> None) = (map_of (storage_map s) r' \<noteq> None))
           \<and> (\<forall>r'. ordering_failure c node destroyed A s' r' = ordering_failure c node destroyed A s r')"
  using assms
proof (induction pre arbitrary: k s)
  case Nil
  show ?case by (rule exI[of _ s]) simp
next
  case (Cons r pre)
  from Cons.prems(1) obtain r_val cell where vals: "r_vals s r = Some r_val"
      "map_of (storage_map s) r = Some cell"
    by auto
  have ok: "\<not> undeclared_change c destroyed s r" "\<not> ordering_failure c node destroyed A s r"
    using Cons.prems(2) by simp_all
  from check_inputs_loop_step[OF vals ok, of clobber k "enumerate (Suc k) (pre @ rest)"]
  obtain s1 where s1:
      "check_inputs_loop c node destroyed A clobber ((k, r) # enumerate (Suc k) (pre @ rest)) s
         = check_inputs_loop c node destroyed A clobber (enumerate (Suc k) (pre @ rest)) s1"
      "r_vals s1 = r_vals s"
      "\<forall>r'. r' \<notin> set destroyed \<longrightarrow> map_of (storage_map s1) r' = map_of (storage_map s) r'"
      "\<forall>r'. (map_of (storage_map s1) r' \<noteq> None) = (map_of (storage_map s) r' \<noteq> None)"
      "\<forall>r'. ordering_failure c node destroyed A s1 r' = ordering_failure c node destroyed A s r'"
    by blast
  have keys1: "\<forall>r \<in> set pre. r \<in> dom (r_vals s1) \<and> map_of (storage_map s1) r \<noteq> None"
    using Cons.prems(1) s1(2,4) by simp
  have ok1: "\<forall>r \<in> set pre. \<not> undeclared_change c destroyed s1 r
                         \<and> \<not> ordering_failure c node destroyed A s1 r"
    using Cons.prems(2) s1(5) undeclared_change_cong[OF s1(2,3)] by simp
  from Cons.IH[OF keys1 ok1, of "Suc k"] obtain s'
    where s': "check_inputs_loop c node destroyed A clobber (enumerate (Suc k) (pre @ rest)) s1
                = check_inputs_loop c node destroyed A clobber (enumerate (Suc k + length pre) rest) s'"
      "r_vals s' = r_vals s1"
      "\<forall>r'. r' \<notin> set destroyed \<longrightarrow> map_of (storage_map s') r' = map_of (storage_map s1) r'"
      "\<forall>r'. (map_of (storage_map s') r' \<noteq> None) = (map_of (storage_map s1) r' \<noteq> None)"
      "\<forall>r'. ordering_failure c node destroyed A s' r' = ordering_failure c node destroyed A s1 r'"
    by blast
  have unfold: "enumerate k ((r # pre) @ rest) = (k, r) # enumerate (Suc k) (pre @ rest)"
    by simp
  have run: "check_inputs_loop c node destroyed A clobber (enumerate k ((r # pre) @ rest)) s
                = check_inputs_loop c node destroyed A clobber
                    (enumerate (k + length (r # pre)) rest) s'"
    by (simp only: unfold s1(1) s'(1)) simp
  have "r_vals s' = r_vals s" using s'(2) s1(2) by simp
  moreover have "\<forall>r'. r' \<notin> set destroyed \<longrightarrow> map_of (storage_map s') r' = map_of (storage_map s) r'"
    using s'(3) s1(3) by simp
  moreover have "\<forall>r'. (map_of (storage_map s') r' \<noteq> None) = (map_of (storage_map s) r' \<noteq> None)"
    using s'(4) s1(4) by simp
  moreover have "\<forall>r'. ordering_failure c node destroyed A s' r' = ordering_failure c node destroyed A s r'"
    using s'(5) s1(5) by simp
  ultimately show ?case using run by blast
qed

lemma check_inputs_loop_undeclared:
  assumes "\<forall>r \<in> set (pre @ [r]). r \<in> dom (r_vals s) \<and> map_of (storage_map s) r \<noteq> None"
    and "\<forall>r \<in> set pre. \<not> undeclared_change c destroyed s r
                         \<and> \<not> ordering_failure c node destroyed A s r"
    and "undeclared_change c destroyed s r"
  shows "fst (check_inputs_loop c node destroyed A clobber (enumerate k (pre @ r # post)) s)
           = Some (BadDestroyMap node (k + length pre) (the (r_vals s r))
                     (the (map_of (storage_map s) r)))"
proof -
  have keys: "\<forall>r \<in> set pre. r \<in> dom (r_vals s) \<and> map_of (storage_map s) r \<noteq> None"
    using assms(1) by simp
  from assms(1) obtain r_val cell where vals: "r_vals s r = Some r_val"
      "map_of (storage_map s) r = Some cell"
    by auto
  from check_inputs_loop_prefix[OF keys assms(2), of clobber k "r # post"] obtain s'
    where s': "check_inputs_loop c node destroyed A clobber (enumerate k (pre @ r # post)) s
                = check_inputs_loop c node destroyed A clobber (enumerate (k + length pre) (r # post)) s'"
      "r_vals s' = r_vals s"
      "\<forall>r'. r' \<notin> set destroyed \<longrightarrow> map_of (storage_map s') r' = map_of (storage_map s) r'"
    by blast
  have fresh: "r \<notin> set destroyed" and differs: "\<not> values_eq_approx c (vtype r) r_val cell"
    using assms(3) vals by (simp_all add: undeclared_change_def input_differs_def)
  have here: "r_vals s' r = Some r_val" "map_of (storage_map s') r = Some cell"
    using s'(2,3) vals fresh by simp_all
  have "fst (check_inputs_loop c node destroyed A clobber
               ((k + length pre, r) # enumerate (Suc (k + length pre)) post) s')
          = Some (BadDestroyMap node (k + length pre) r_val cell)"
    using here fresh differs by simp
  then show ?thesis by (simp add: s'(1) vals)
qed

lemma check_inputs_loop_ordering:
  assumes "\<forall>r \<in> set (pre @ [r]). r \<in> dom (r_vals s) \<and> map_of (storage_map s) r \<noteq> None"
    and "\<forall>r \<in> set pre. \<not> undeclared_change c destroyed s r
                         \<and> \<not> ordering_failure c node destroyed A s r"
    and "ordering_failure c node destroyed A s r"
  shows "fst (check_inputs_loop c node destroyed A clobber (enumerate k (pre @ r # post)) s)
           = Some (PyException ''failure in topological ordering'' None)"
proof -
  have keys: "\<forall>r \<in> set pre. r \<in> dom (r_vals s) \<and> map_of (storage_map s) r \<noteq> None"
    using assms(1) by simp
  from check_inputs_loop_prefix[OF keys assms(2), of clobber k "r # post"] obtain s'
    where s': "check_inputs_loop c node destroyed A clobber (enumerate k (pre @ r # post)) s
                = check_inputs_loop c node destroyed A clobber (enumerate (k + length pre) (r # post)) s'"
      "r_vals s' = r_vals s"
      "\<forall>r'. (map_of (storage_map s') r' \<noteq> None) = (map_of (storage_map s) r' \<noteq> None)"
      "\<forall>r'. ordering_failure c node destroyed A s' r' = ordering_failure c node destroyed A s r'"
    by blast
  from assms(1) have "r_vals s r \<noteq> None" "map_of (storage_map s) r \<noteq> None" by auto
  then have "r_vals s' r \<noteq> None" "map_of (storage_map s') r \<noteq> None"
    using s'(2,3) by simp_all
  then obtain r_val cell where here: "r_vals s' r = Some r_val"
      "map_of (storage_map s') r = Some cell"
    by blast
  have "ordering_failure c node destroyed A s' r" using assms(3) s'(4) by simp
  then have facts: "r \<in> set destroyed" "\<not> values_eq_approx c (vtype r) r_val cell" "node \<in> A"
      "(case dr_vals s' r of None \<Rightarrow> False | Some (v, n) \<Rightarrow> n \<noteq> node)"
    using here by (simp_all add: ordering_failure_def input_differs_def)
  have "fst (check_inputs_loop c node destroyed A clobber
               ((k + length pre, r) # enumerate (Suc (k + length pre)) post) s')
          = Some (PyException ''failure in topological ordering'' None)"
    using here facts by simp
  then show ?thesis by (simp add: s'(1))
qed

lemma check_inputs_loop_passes:
  assumes "\<forall>r \<in> set rs. r \<in> dom (r_vals s) \<and> map_of (storage_map s) r \<noteq> None"
    and "\<forall>r \<in> set rs. \<not> undeclared_change c destroyed s r
                         \<and> \<not> ordering_failure c node destroyed A s r"
  shows "fst (check_inputs_loop c node destroyed A clobber (enumerate k rs) s) = None"
proof -
  from check_inputs_loop_prefix[OF assms, of clobber k "[]"] obtain s'
    where "check_inputs_loop c node destroyed A clobber (enumerate k (rs @ [])) s
                = check_inputs_loop c node destroyed A clobber (enumerate (k + length rs) []) s'"
    by blast
  then show ?thesis by simp
qed

lemma check_inputs_loop_fails:
  assumes "\<forall>r \<in> set rs. r \<in> dom (r_vals s) \<and> map_of (storage_map s) r \<noteq> None"
    and "\<exists>r \<in> set rs. undeclared_change c destroyed s r \<or> ordering_failure c node destroyed A s r"
  shows "fst (check_inputs_loop c node destroyed A clobber (enumerate k rs) s) \<noteq> None"
proof -
  from split_list_first_prop[OF assms(2)] obtain pre r post
    where split: "rs = pre @ r # post"
      and bad: "undeclared_change c destroyed s r \<or> ordering_failure c node destroyed A s r"
      and good: "\<forall>r' \<in> set pre. \<not> (undeclared_change c destroyed s r'
                                     \<or> ordering_failure c node destroyed A s r')"
    by blast
  have keys: "\<forall>r \<in> set (pre @ [r]). r \<in> dom (r_vals s) \<and> map_of (storage_map s) r \<noteq> None"
    using assms(1) split by simp
  have pre: "\<forall>r \<in> set pre. \<not> undeclared_change c destroyed s r
                         \<and> \<not> ordering_failure c node destroyed A s r"
    using good by simp
  from bad show ?thesis
  proof
    assume "undeclared_change c destroyed s r"
    from check_inputs_loop_undeclared[OF keys pre this, of clobber k post] show ?thesis
      by (simp add: split)
  next
    assume "ordering_failure c node destroyed A s r"
    from check_inputs_loop_ordering[OF keys pre this, of clobber k post] show ?thesis
      by (simp add: split)
  qed
qed

lemma py_block_raises_check_inputs:
  assumes "fst (check_inputs c node A True (s0\<lparr>storage_map := thunk (storage_map s0)\<rparr>)) = Some e"
  shows "fst (py_block c A node (Some thunk) s0) = Some e"
proof -
  obtain s' where "check_inputs c node A True (s0\<lparr>storage_map := thunk (storage_map s0)\<rparr>)
                     = (Some e, s')"
    using assms by (cases "check_inputs c node A True (s0\<lparr>storage_map := thunk (storage_map s0)\<rparr>)")
      simp
  then show ?thesis by (simp add: py_block_def run_thunk_def)
qed

lemma c_block_raises_check_inputs:
  assumes "refill_inputs c (inputs node) s0 = (None, s1)"
    and "fst (check_inputs c node A False (s1\<lparr>storage_map := thunk (storage_map s1)\<rparr>)) = Some e"
  shows "fst (c_block c A node (Some thunk) s0) = Some e"
proof -
  obtain s' where "check_inputs c node A False (s1\<lparr>storage_map := thunk (storage_map s1)\<rparr>)
                     = (Some e, s')"
    using assms(2)
    by (cases "check_inputs c node A False (s1\<lparr>storage_map := thunk (storage_map s1)\<rparr>)") simp
  then show ?thesis by (simp add: c_block_def run_thunk_def assms(1))
qed

lemma eval_node_raises_py_check:
  assumes "put_inputs c (inputs node) s0 = (None, sa)"
    and "fst (check_inputs c node A True (sa\<lparr>storage_map := thunk_py (storage_map sa)\<rparr>)) = Some e"
  shows "fst (eval_node c A (Some thunk_py, thunk_c, node) s0) = Some e"
proof -
  have "fst (py_block c A node (Some thunk_py) sa) = Some e"
    using assms(2) by (rule py_block_raises_check_inputs)
  then obtain s' where "py_block c A node (Some thunk_py) sa = (Some e, s')"
    by (cases "py_block c A node (Some thunk_py) sa") simp
  then show ?thesis by (simp add: eval_node_def assms(1))
qed

lemma eval_node_raises_c_check:
  assumes "put_inputs c (inputs node) s0 = (None, sa)"
    and "py_block c A node thunk_py sa = (None, s1)"
    and "refill_inputs c (inputs node) s1 = (None, s1')"
    and "fst (check_inputs c node A False (s1'\<lparr>storage_map := thunk_c (storage_map s1')\<rparr>)) = Some e"
  shows "fst (eval_node c A (thunk_py, Some thunk_c, node) s0) = Some e"
proof -
  have "fst (c_block c A node (Some thunk_c) s1) = Some e"
    using assms(3,4) by (rule c_block_raises_check_inputs)
  then obtain s' where "c_block c A node (Some thunk_c) s1 = (Some e, s')"
    by (cases "c_block c A node (Some thunk_c) s1") simp
  then show ?thesis by (simp add: eval_node_def assms(1,2))
qed


text \<open>
  Claim C5, as amended. \<open>destroyed\<close> is the list of the variables at the input positions that
  the \<^verbatim>\<open>destroy_map\<close> of the node lists, and \<open>s\<close> is the state in which a thunk of the node has
  just run, with every input in \<^verbatim>\<open>r_vals\<close> and in the storage map. \<^verbatim>\<open>BadDestroyMap\<close> is raised
  only for an input whose variable is not in \<open>destroyed\<close> and whose cell differs from its
  \<^verbatim>\<open>r_vals\<close> entry, and it carries the node, the index of that input, the \<^verbatim>\<open>r_vals\<close> entry and
  the cell, so an input whose variable is in \<open>destroyed\<close> may differ without
  \<^verbatim>\<open>BadDestroyMap\<close>. The inputs are visited in order, and the first one that either differs
  with a variable outside \<open>destroyed\<close>, or differs with a variable in \<open>destroyed\<close> that another
  node of an active order has destroyed, decides: the former raises \<^verbatim>\<open>BadDestroyMap\<close> for its
  index, the latter raises the failure in topological ordering. The check returns normally
  exactly when there is no such input. What the check raises after the reference thunk
  (where it records the destroyed values) and after the compiled thunk (where it does not)
  is raised by the block of that backend and by the evaluation of the node.
\<close>

theorem check_inputs_BadDestroyMap:
  assumes "destroyed_res_list node = Some destroyed"
    and "\<forall>r \<in> set (inputs node). r \<in> dom (r_vals s) \<and> map_of (storage_map s) r \<noteq> None"
  shows "destroyed = map (\<lambda>i. inputs node ! i) (destroyed_idx_list node)
       \<and> (\<forall>n i old new.
            fst (check_inputs c node A clobber s) = Some (BadDestroyMap n i old new) \<longrightarrow>
            n = node \<and> i < length (inputs node) \<and> inputs node ! i \<notin> set destroyed
            \<and> r_vals s (inputs node ! i) = Some old
            \<and> map_of (storage_map s) (inputs node ! i) = Some new
            \<and> \<not> values_eq_approx c (vtype (inputs node ! i)) old new)
       \<and> (\<forall>pre r post.
            inputs node = pre @ r # post
            \<and> list_all (\<lambda>r'. \<not> undeclared_change c destroyed s r'
                               \<and> \<not> ordering_failure c node destroyed A s r') pre
            \<and> undeclared_change c destroyed s r
            \<longrightarrow> fst (check_inputs c node A clobber s)
                  = Some (BadDestroyMap node (length pre) (the (r_vals s r))
                            (the (map_of (storage_map s) r))))
       \<and> (\<forall>pre r post.
            inputs node = pre @ r # post
            \<and> list_all (\<lambda>r'. \<not> undeclared_change c destroyed s r'
                               \<and> \<not> ordering_failure c node destroyed A s r') pre
            \<and> ordering_failure c node destroyed A s r
            \<longrightarrow> fst (check_inputs c node A clobber s)
                  = Some (PyException ''failure in topological ordering'' None))
       \<and> (fst (check_inputs c node A clobber s) = None)
           = list_all (\<lambda>r. \<not> undeclared_change c destroyed s r
                             \<and> \<not> ordering_failure c node destroyed A s r) (inputs node)
       \<and> (\<forall>thunk_py thunk_c s0 sa e.
            s = sa\<lparr>storage_map := thunk_py (storage_map sa)\<rparr>
            \<and> fst (check_inputs c node A True s) = Some e
            \<longrightarrow> fst (py_block c A node (Some thunk_py) sa) = Some e
                \<and> (put_inputs c (inputs node) s0 = (None, sa)
                     \<longrightarrow> fst (eval_node c A (Some thunk_py, thunk_c, node) s0) = Some e))
       \<and> (\<forall>thunk_py thunk_c s0 sa s1 s1' e.
            refill_inputs c (inputs node) s1 = (None, s1')
            \<and> s = s1'\<lparr>storage_map := thunk_c (storage_map s1')\<rparr>
            \<and> fst (check_inputs c node A False s) = Some e
            \<longrightarrow> fst (c_block c A node (Some thunk_c) s1) = Some e
                \<and> (put_inputs c (inputs node) s0 = (None, sa)
                     \<and> py_block c A node thunk_py sa = (None, s1)
                     \<longrightarrow> fst (eval_node c A (thunk_py, Some thunk_c, node) s0) = Some e))"
proof (intro conjI)
  let ?fine = "\<lambda>r. \<not> undeclared_change c destroyed s r \<and> \<not> ordering_failure c node destroyed A s r"
  have run: "check_inputs c node A clobber s
               = check_inputs_loop c node destroyed A clobber (enumerate 0 (inputs node)) s"
    by (simp add: check_inputs_def assms(1))
  show "destroyed = map (\<lambda>i. inputs node ! i) (destroyed_idx_list node)"
    using assms(1) by (auto simp: destroyed_res_list_def split: if_splits)
  show "\<forall>n i old new.
            fst (check_inputs c node A clobber s) = Some (BadDestroyMap n i old new) \<longrightarrow>
            n = node \<and> i < length (inputs node) \<and> inputs node ! i \<notin> set destroyed
            \<and> r_vals s (inputs node ! i) = Some old
            \<and> map_of (storage_map s) (inputs node ! i) = Some new
            \<and> \<not> values_eq_approx c (vtype (inputs node ! i)) old new"
  proof (intro allI impI)
    fix n i old new
    assume "fst (check_inputs c node A clobber s) = Some (BadDestroyMap n i old new)"
    then have "check_inputs_loop c node destroyed A clobber (enumerate 0 (inputs node)) s
               = (Some (BadDestroyMap n i old new),
                  snd (check_inputs_loop c node destroyed A clobber (enumerate 0 (inputs node)) s))"
      by (simp add: run prod_eq_iff)
    from check_inputs_loop_sound[OF this]
    show "n = node \<and> i < length (inputs node) \<and> inputs node ! i \<notin> set destroyed
            \<and> r_vals s (inputs node ! i) = Some old
            \<and> map_of (storage_map s) (inputs node ! i) = Some new
            \<and> \<not> values_eq_approx c (vtype (inputs node ! i)) old new"
      by simp
  qed
  show "\<forall>pre r post.
            inputs node = pre @ r # post \<and> list_all ?fine pre
            \<and> undeclared_change c destroyed s r
            \<longrightarrow> fst (check_inputs c node A clobber s)
                  = Some (BadDestroyMap node (length pre) (the (r_vals s r))
                            (the (map_of (storage_map s) r)))"
  proof (intro allI impI)
    fix pre r post
    assume h: "inputs node = pre @ r # post \<and> list_all ?fine pre
                 \<and> undeclared_change c destroyed s r"
    then have split: "inputs node = pre @ r # post" and pre: "\<forall>r' \<in> set pre. ?fine r'"
      and bad: "undeclared_change c destroyed s r"
      by (simp_all add: list_all_iff)
    have keys: "\<forall>r \<in> set (pre @ [r]). r \<in> dom (r_vals s) \<and> map_of (storage_map s) r \<noteq> None"
      using assms(2) split by simp
    from check_inputs_loop_undeclared[OF keys pre bad, of clobber 0 post]
    show "fst (check_inputs c node A clobber s)
            = Some (BadDestroyMap node (length pre) (the (r_vals s r))
                      (the (map_of (storage_map s) r)))"
      by (simp add: run split)
  qed
  show "\<forall>pre r post.
            inputs node = pre @ r # post \<and> list_all ?fine pre
            \<and> ordering_failure c node destroyed A s r
            \<longrightarrow> fst (check_inputs c node A clobber s)
                  = Some (PyException ''failure in topological ordering'' None)"
  proof (intro allI impI)
    fix pre r post
    assume h: "inputs node = pre @ r # post \<and> list_all ?fine pre
                 \<and> ordering_failure c node destroyed A s r"
    then have split: "inputs node = pre @ r # post" and pre: "\<forall>r' \<in> set pre. ?fine r'"
      and bad: "ordering_failure c node destroyed A s r"
      by (simp_all add: list_all_iff)
    have keys: "\<forall>r \<in> set (pre @ [r]). r \<in> dom (r_vals s) \<and> map_of (storage_map s) r \<noteq> None"
      using assms(2) split by simp
    from check_inputs_loop_ordering[OF keys pre bad, of clobber 0 post]
    show "fst (check_inputs c node A clobber s)
            = Some (PyException ''failure in topological ordering'' None)"
      by (simp add: run split)
  qed
  show "(fst (check_inputs c node A clobber s) = None) = list_all ?fine (inputs node)"
  proof (cases "list_all ?fine (inputs node)")
    case True
    then have "\<forall>r \<in> set (inputs node). ?fine r" by (simp add: list_all_iff)
    from check_inputs_loop_passes[OF assms(2) this, of clobber 0] True show ?thesis
      by (simp add: run)
  next
    case False
    then have "\<exists>r \<in> set (inputs node). undeclared_change c destroyed s r
                  \<or> ordering_failure c node destroyed A s r"
      by (auto simp: list_all_iff)
    from check_inputs_loop_fails[OF assms(2) this, of clobber 0] False show ?thesis
      by (simp add: run)
  qed
  show "\<forall>thunk_py thunk_c s0 sa e.
            s = sa\<lparr>storage_map := thunk_py (storage_map sa)\<rparr>
            \<and> fst (check_inputs c node A True s) = Some e
            \<longrightarrow> fst (py_block c A node (Some thunk_py) sa) = Some e
                \<and> (put_inputs c (inputs node) s0 = (None, sa)
                     \<longrightarrow> fst (eval_node c A (Some thunk_py, thunk_c, node) s0) = Some e)"
  proof (intro allI impI conjI)
    fix thunk_py thunk_c e and s0 sa :: "('a, 'b) fstate"
    assume h: "s = sa\<lparr>storage_map := thunk_py (storage_map sa)\<rparr>
            \<and> fst (check_inputs c node A True s) = Some e"
    from h have eq: "s = sa\<lparr>storage_map := thunk_py (storage_map sa)\<rparr>" by (rule conjunct1)
    from h have "fst (check_inputs c node A True s) = Some e" by (rule conjunct2)
    then have raised:
      "fst (check_inputs c node A True (sa\<lparr>storage_map := thunk_py (storage_map sa)\<rparr>)) = Some e"
      by (simp only: eq[symmetric])
    show "fst (py_block c A node (Some thunk_py) sa) = Some e"
      using raised by (rule py_block_raises_check_inputs)
    assume put: "put_inputs c (inputs node) s0 = (None, sa)"
    show "fst (eval_node c A (Some thunk_py, thunk_c, node) s0) = Some e"
      using put raised by (rule eval_node_raises_py_check)
  qed
  show "\<forall>thunk_py thunk_c s0 sa s1 s1' e.
            refill_inputs c (inputs node) s1 = (None, s1')
            \<and> s = s1'\<lparr>storage_map := thunk_c (storage_map s1')\<rparr>
            \<and> fst (check_inputs c node A False s) = Some e
            \<longrightarrow> fst (c_block c A node (Some thunk_c) s1) = Some e
                \<and> (put_inputs c (inputs node) s0 = (None, sa)
                     \<and> py_block c A node thunk_py sa = (None, s1)
                     \<longrightarrow> fst (eval_node c A (thunk_py, Some thunk_c, node) s0) = Some e)"
  proof (intro allI impI conjI)
    fix thunk_py thunk_c e and s0 sa s1 s1' :: "('a, 'b) fstate"
    assume h: "refill_inputs c (inputs node) s1 = (None, s1')
            \<and> s = s1'\<lparr>storage_map := thunk_c (storage_map s1')\<rparr>
            \<and> fst (check_inputs c node A False s) = Some e"
    from h have refill: "refill_inputs c (inputs node) s1 = (None, s1')" by (rule conjunct1)
    from h have eq: "s = s1'\<lparr>storage_map := thunk_c (storage_map s1')\<rparr>"
      by (rule conjunct2[THEN conjunct1])
    from h have "fst (check_inputs c node A False s) = Some e"
      by (rule conjunct2[THEN conjunct2])
    then have raised:
      "fst (check_inputs c node A False (s1'\<lparr>storage_map := thunk_c (storage_map s1')\<rparr>)) = Some e"
      by (simp only: eq[symmetric])
    show "fst (c_block c A node (Some thunk_c) s1) = Some e"
      using refill raised by (rule c_block_raises_check_inputs)
    assume "put_inputs c (inputs node) s0 = (None, sa)
              \<and> py_block c A node thunk_py sa = (None, s1)"
    then have put: "put_inputs c (inputs node) s0 = (None, sa)"
      and py: "py_block c A node thunk_py sa = (None, s1)"
      by simp_all
    show "fst (eval_node c A (thunk_py, Some thunk_c, node) s0) = Some e"
      using put py refill raised by (rule eval_node_raises_c_check)
  qed
qed

lemma ex_xyz: "ex_x \<noteq> ex_y" "ex_y \<noteq> ex_x" "ex_x \<noteq> ex_z" "ex_z \<noteq> ex_x" "ex_y \<noteq> ex_z" "ex_z \<noteq> ex_y"
  by (simp_all add: ex_x_def ex_y_def ex_z_def)

text \<open>
  Witness for C5 as amended: \<^verbatim>\<open>neg\<close> has overwritten its input and declares no \<^verbatim>\<open>destroy_map\<close>.
\<close>

theorem check_inputs_BadDestroyMap_witness:
  "destroyed_res_list ex_neg_node = Some []
   \<and> r_vals ex_mutated_state ex_x = Some (PyObj (0, 1))
   \<and> map_of (storage_map ex_mutated_state) ex_x = Some (PyObj (100, 5))
   \<and> \<not> values_eq_approx ex_contract (vtype ex_x) (PyObj (0, 1)) (PyObj (100, 5))
   \<and> fst (check_inputs ex_contract ex_neg_node {ex_neg_node} True ex_mutated_state)
       = Some (BadDestroyMap ex_neg_node 0 (PyObj (0, 1)) (PyObj (100, 5)))"
proof -
  have d: "destroyed_res_list ex_neg_node = Some []"
    by (simp add: destroyed_res_list_def destroyed_idx_list_def ex_neg_node_def ex_neg_def)
  have rv: "r_vals ex_mutated_state ex_x = Some (PyObj (0, 1))"
    by (simp add: ex_mutated_state_def)
  have cell: "map_of (storage_map ex_mutated_state) ex_x = Some (PyObj (100, 5))"
    by (simp add: ex_mutated_state_def)
  have differ: "\<not> values_eq_approx ex_contract (vtype ex_x) (PyObj (0, 1)) (PyObj (100, 5))"
    by (simp add: ex_contract_def ex_values_eq_approx_def)
  have ins: "inputs ex_neg_node = [ex_x]" by (simp add: ex_neg_node_def)
  have keys: "\<forall>r \<in> set (inputs ex_neg_node).
                r \<in> dom (r_vals ex_mutated_state) \<and> map_of (storage_map ex_mutated_state) r \<noteq> None"
    using rv cell by (simp add: ins dom_def)
  note T = check_inputs_BadDestroyMap[OF d keys, of ex_contract "{ex_neg_node}" True]
  have first: "inputs ex_neg_node = [] @ ex_x # []
            \<and> list_all (\<lambda>r'. \<not> undeclared_change ex_contract [] ex_mutated_state r'
                   \<and> \<not> ordering_failure ex_contract ex_neg_node [] {ex_neg_node} ex_mutated_state r') []
            \<and> undeclared_change ex_contract [] ex_mutated_state ex_x"
    using differ by (simp add: ins undeclared_change_def input_differs_def rv cell)
  from T[THEN conjunct2, THEN conjunct2, THEN conjunct1, THEN spec, THEN spec, THEN spec,
         THEN mp, OF first]
  have "fst (check_inputs ex_contract ex_neg_node {ex_neg_node} True ex_mutated_state)
       = Some (BadDestroyMap ex_neg_node 0 (PyObj (0, 1)) (PyObj (100, 5)))"
    by (simp add: rv cell)
  with d rv cell differ show ?thesis by blast
qed

text \<open>
  Counterexample to C5 as stated: in \<^verbatim>\<open>add_inplace(x, x)\<close> the input index 1 is not listed in
  the \<^verbatim>\<open>destroy_map\<close> and its cell differs from its \<^verbatim>\<open>r_vals\<close> entry, but its variable is the
  one at the listed index 0, and no \<^verbatim>\<open>BadDestroyMap\<close> is raised.
\<close>

theorem check_inputs_duplicate_counterexample:
  "1 \<notin> set (destroyed_idx_list ex_inplace_add_node)
   \<and> inputs ex_inplace_add_node ! 1 = ex_x
   \<and> r_vals ex_mutated_state ex_x = Some (PyObj (0, 1))
   \<and> map_of (storage_map ex_mutated_state) ex_x = Some (PyObj (100, 5))
   \<and> \<not> values_eq_approx ex_contract (vtype ex_x) (PyObj (0, 1)) (PyObj (100, 5))
   \<and> fst (check_inputs ex_contract ex_inplace_add_node {ex_inplace_add_node} True ex_mutated_state)
       = None"
  by (simp add: check_inputs_def destroyed_res_list_def destroyed_idx_list_def enumerate_eq_zip
      ex_inplace_add_node_def ex_inplace_add_def ex_mutated_state_def ex_contract_def
      ex_values_eq_approx_def)

section \<open>Properties of the view-map check\<close>












end
